theory Spec2Isabelle
  imports Main "HOL-Library.Word"
begin

section \<open>snapuserd: the COW translation engine of fs\_mgr/libsnapshot/snapuserd.cpp\<close>

text \<open>
  A shallow embedding of \<^verbatim>\<open>src/fs_mgr/libsnapshot/snapuserd.cpp\<close>. Every member function
  becomes a function on an explicit \<open>snapuserd\<close> state. A failed \<^verbatim>\<open>CHECK\<close> (which aborts
  the process) and a memory access outside the buffer it addresses are the two faults, made
  values of the type \<open>fault\<close>; a function that can fault returns \<open>fault + result\<close>.

  Chunk ids, sectors and sizes are \<open>nat\<close>: the 64-bit counters of the source cannot wrap
  before some \<open>2^63\<close> operations have been read, so the arithmetic is written without
  wrap-around, and \<^verbatim>\<open>lldiv\<close> on these non-negative values is \<open>div\<close> and \<open>mod\<close>. The one
  place where unsigned subtraction can wrap on reachable values, the bound test of
  \<^verbatim>\<open>BufferSink::GetPayloadBuffer\<close>, is written with its wrap-around.
\<close>

subsection \<open>Constants\<close>

text \<open>
  Modelled from the spec: \<^verbatim>\<open>BLOCK_SIZE\<close>, \<^verbatim>\<open>BLOCK_SHIFT\<close>, \<^verbatim>\<open>SECTOR_SHIFT\<close>, \<^verbatim>\<open>CHUNK_SIZE\<close>,
  \<^verbatim>\<open>CHUNK_SHIFT\<close> and \<^verbatim>\<open>NUM_SNAPSHOT_HDR_CHUNKS\<close> are declared in headers that are not part of
  the sources; the spec gives their values (a block of 4096 bytes, a sector of 512 bytes, a
  chunk of 8 sectors, one header chunk).
\<close>

definition BLOCK_SIZE :: nat where "BLOCK_SIZE = 4096"
definition BLOCK_SHIFT :: nat where "BLOCK_SHIFT = 12"
definition SECTOR_SHIFT :: nat where "SECTOR_SHIFT = 9"
definition CHUNK_SIZE :: nat where "CHUNK_SIZE = 8"
definition CHUNK_SHIFT :: nat where "CHUNK_SHIFT = 3"
definition NUM_SNAPSHOT_HDR_CHUNKS :: nat where "NUM_SNAPSHOT_HDR_CHUNKS = 1"

text \<open>\<^verbatim>\<open>static constexpr size_t PAYLOAD_SIZE = (1UL << 16);\<close>\<close>

definition PAYLOAD_SIZE :: nat where "PAYLOAD_SIZE = 2 ^ 16"

text \<open>\<^verbatim>\<open>sizeof(struct disk_exception)\<close>: two 64-bit fields.\<close>

definition sizeof_disk_exception :: nat where "sizeof_disk_exception = 16"

text \<open>
  Modelled from the spec: \<^verbatim>\<open>struct dm_user_header\<close> is declared in a header that is not
  part of the sources; the spec gives its fields (u64 seq, u32 type, u32 flags, u64 sector,
  u64 len), 32 bytes.
\<close>

definition sizeof_dm_user_header :: nat where "sizeof_dm_user_header = 32"

text \<open>
  The member \<^verbatim>\<open>exceptions_per_area_\<close> is assigned once, in \<^verbatim>\<open>ReadMetadata\<close>, before any
  request is served: \<^verbatim>\<open>(CHUNK_SIZE << SECTOR_SHIFT) / sizeof(struct disk_exception)\<close>.
\<close>

definition exceptions_per_area :: nat where
  "exceptions_per_area = (CHUNK_SIZE * 2 ^ SECTOR_SHIFT) div sizeof_disk_exception"


subsection \<open>Faults\<close>

text \<open>
  \<open>CheckFailed c\<close>: the \<^verbatim>\<open>CHECK(c)\<close> of the source failed, which logs fatally and aborts
  the daemon. \<open>OutOfBounds\<close>: the code dereferenced memory outside the buffer it was given
  (undefined behaviour in C++); the model stops there.
\<close>

datatype fault = CheckFailed string | OutOfBounds

definition CHECK :: "bool \<Rightarrow> string \<Rightarrow> (fault + 'a) \<Rightarrow> fault + 'a" where
  "CHECK c msg k = (if c then k else Inl (CheckFailed msg))"

subsection \<open>Data\<close>

type_synonym byte = "8 word"

text \<open>\<^verbatim>\<open>struct disk_exception { uint64_t old_chunk; uint64_t new_chunk; }\<close>\<close>

record disk_exception =
  old_chunk :: nat
  new_chunk :: nat

definition zero_de :: disk_exception where
  "zero_de = \<lparr>old_chunk = 0, new_chunk = 0\<rparr>"

text \<open>
  An area is one page of \<^verbatim>\<open>exceptions_per_area_\<close> disk exceptions. The source allocates it
  as \<^verbatim>\<open>uint8_t[exceptions_per_area_ * sizeof(struct disk_exception)]\<close> and addresses it
  through \<^verbatim>\<open>reinterpret_cast<struct disk_exception*>(ptr + offset)\<close>; the model keeps the
  array of structures and the byte offset.
\<close>

type_synonym area = "disk_exception list"

definition zero_area :: area where
  "zero_area = replicate exceptions_per_area zero_de"

text \<open>Reading the exception at byte offset \<open>off\<close> of an area.\<close>

definition area_read :: "area \<Rightarrow> nat \<Rightarrow> fault + disk_exception" where
  "area_read a off =
     (if off div sizeof_disk_exception < length a
      then Inr (a ! (off div sizeof_disk_exception)) else Inl OutOfBounds)"

text \<open>Writing both fields of the exception at byte offset \<open>off\<close> of an area.\<close>

definition area_write :: "area \<Rightarrow> nat \<Rightarrow> disk_exception \<Rightarrow> fault + area" where
  "area_write a off de =
     (if off div sizeof_disk_exception < length a
      then Inr (a[off div sizeof_disk_exception := de]) else Inl OutOfBounds)"

text \<open>
  Modelled from the spec: \<^verbatim>\<open>struct CowOperation\<close> and \<^verbatim>\<open>struct CowHeader\<close> are declared in
  the COW format's header, not part of the sources. The spec gives the operation types
  (Replace, Copy, Zero, Label, Footer) and the fields the daemon reads; any other value of
  the type field is \<open>kCowUnknownOp\<close>.
\<close>

datatype cow_op_type =
  kCowCopyOp | kCowReplaceOp | kCowZeroOp | kCowLabelOp | kCowFooterOp | kCowUnknownOp nat

record CowOperation =
  type :: cow_op_type
  new_block :: nat
  source :: nat

record CowHeader =
  block_size :: nat
  num_merge_ops :: nat

text \<open>
  Modelled from the spec: the COW reader and writer (\<^verbatim>\<open>CowReader\<close>, \<^verbatim>\<open>CowWriter\<close>) are
  external to the sources. The device is what the reader's calls return: whether \<^verbatim>\<open>Parse\<close>
  succeeds, the header \<^verbatim>\<open>GetHeader\<close> yields (\<open>None\<close> when it fails), the operations in
  forward order (\<^verbatim>\<open>GetOpIter\<close>; \<^verbatim>\<open>GetRevOpIter\<close> walks them backwards), the block of bytes
  \<^verbatim>\<open>ReadData\<close> produces for an operation (\<open>None\<close> when it fails), and whether the
  \<^verbatim>\<open>CommitMerge\<close> after \<open>n\<close> earlier calls succeeds. \<open>cow_open_ok\<close>: whether \<^verbatim>\<open>open\<close> of the
  device succeeds.
\<close>

record cow_device =
  cow_open_ok :: bool
  cow_parse_ok :: bool
  cow_header :: "CowHeader option"
  cow_ops :: "CowOperation list"
  cow_data :: "CowOperation \<Rightarrow> byte list option"
  cow_commit_ok :: "nat \<Rightarrow> bool"

subsection \<open>The chunk map\<close>

text \<open>
  \<^verbatim>\<open>std::map<chunk_t, const CowOperation*> chunk_map_\<close>: an ordered map, kept as the list of
  its entries in ascending key order (the order in which the map iterates).
  \<open>map_assign k v\<close> is \<^verbatim>\<open>chunk_map_[k] = v\<close>, \<open>map_of m k\<close> is \<^verbatim>\<open>chunk_map_.find(k)\<close>.
\<close>

type_synonym chunk_map_t = "(nat \<times> CowOperation) list"

fun map_assign :: "nat \<Rightarrow> 'v \<Rightarrow> (nat \<times> 'v) list \<Rightarrow> (nat \<times> 'v) list" where
  "map_assign k v [] = [(k, v)]"
| "map_assign k v ((k', v') # m) =
     (if k < k' then (k, v) # (k', v') # m
      else if k = k' then (k, v) # m
      else (k', v') # map_assign k v m)"

subsection \<open>BufferSink\<close>

text \<open>
  \<^verbatim>\<open>struct dm_user_header\<close> (see \<open>sizeof_dm_user_header\<close>); requests and responses share the
  \<open>type\<close> field.
\<close>

record dm_user_header =
  seq :: nat
  req_type :: nat
  flags :: nat
  sector :: nat
  len :: nat

definition zero_header :: dm_user_header where
  "zero_header = \<lparr>seq = 0, req_type = 0, flags = 0, sector = 0, len = 0\<rparr>"

text \<open>
  The sink's buffer is a \<^verbatim>\<open>struct dm_user_message\<close>: the header, then the payload bytes
  (\<open>buffer_size - sizeof_dm_user_header\<close> of them).
\<close>

record BufferSink =
  buffer_size :: nat
  buffer_offset :: nat
  header :: dm_user_header
  payload :: "byte list"

text \<open>\<^verbatim>\<open>BufferSink::Initialize\<close>: \<^verbatim>\<open>make_unique<uint8_t[]>(size)\<close> gives zeroed bytes.\<close>

definition Initialize :: "nat \<Rightarrow> BufferSink" where
  "Initialize sz =
     \<lparr>buffer_size = sz, buffer_offset = 0, header = zero_header,
      payload = replicate (sz - sizeof_dm_user_header) 0\<rparr>"

text \<open>
  \<^verbatim>\<open>BufferSink::GetPayloadBuffer\<close>. The pointer it returns is \<open>payload.buf + buffer_offset_\<close>,
  here the offset into the payload; \<open>None\<close> is \<^verbatim>\<open>nullptr\<close>. The subtraction is one of
  \<^verbatim>\<open>size_t\<close> values and wraps modulo \<open>2^64\<close>.
\<close>

definition GetPayloadBuffer :: "BufferSink \<Rightarrow> nat \<Rightarrow> nat option" where
  "GetPayloadBuffer b sz =
     (if (buffer_size b + 2 ^ 64 - buffer_offset b) mod 2 ^ 64 < sz then None
      else Some (buffer_offset b))"

text \<open>\<^verbatim>\<open>BufferSink::GetBuffer\<close>: the pointer and \<^verbatim>\<open>*actual\<close>.\<close>

definition GetBuffer :: "BufferSink \<Rightarrow> nat \<Rightarrow> nat option \<times> nat" where
  "GetBuffer b requested =
     (case GetPayloadBuffer b requested of
        None \<Rightarrow> (None, 0)
      | Some buf \<Rightarrow> (Some buf, requested))"

text \<open>
  \<^verbatim>\<open>BufferSink::GetHeaderPtr\<close>: \<^verbatim>\<open>CHECK(sizeof(struct dm_user_header) <= buffer_size_)\<close>, then
  the header at the start of the buffer.
\<close>

definition GetHeaderPtr :: "BufferSink \<Rightarrow> fault + dm_user_header" where
  "GetHeaderPtr b =
     CHECK (sizeof_dm_user_header \<le> buffer_size b)
       ''sizeof(struct dm_user_header) <= buffer_size_'' (Inr (header b))"

text \<open>
  Modelled from the spec: \<^verbatim>\<open>UpdateBufferOffset\<close>, \<^verbatim>\<open>ResetBufferOffset\<close> and \<^verbatim>\<open>Clear\<close> are
  defined in the class header, which is not part of the sources. The spec: \<open>advance(n)\<close>
  increments the internal offset by \<open>n\<close>; \<open>reset()\<close> sets the offset to 0; \<open>clear()\<close> zeroes the
  buffer and sets the offset to 0.
\<close>

definition UpdateBufferOffset :: "BufferSink \<Rightarrow> nat \<Rightarrow> BufferSink" where
  "UpdateBufferOffset b n = b\<lparr>buffer_offset := buffer_offset b + n\<rparr>"

definition ResetBufferOffset :: "BufferSink \<Rightarrow> BufferSink" where
  "ResetBufferOffset b = b\<lparr>buffer_offset := 0\<rparr>"

definition Clear :: "BufferSink \<Rightarrow> BufferSink" where
  "Clear b = b\<lparr>buffer_offset := 0, header := zero_header,
               payload := replicate (length (payload b)) 0\<rparr>"

text \<open>
  \<^verbatim>\<open>memcpy\<close>/\<^verbatim>\<open>memset\<close>/\<^verbatim>\<open>read\<close> of the bytes \<open>bs\<close> to the payload pointer \<open>off\<close>. The region
  must lie inside the payload.
\<close>

definition payload_store :: "BufferSink \<Rightarrow> nat \<Rightarrow> byte list \<Rightarrow> fault + BufferSink" where
  "payload_store b off bs =
     (if off + length bs \<le> length (payload b)
      then Inr (b\<lparr>payload := take off (payload b) @ bs @ drop (off + length bs) (payload b)\<rparr>)
      else Inl OutOfBounds)"

subsection \<open>The daemon's state\<close>

text \<open>
  What \<^verbatim>\<open>ReadFully\<close> on the control device returns: a request header, the payload of a
  write request, or a failure.
\<close>

datatype ctrl_read = RdHeader dm_user_header | RdPayload "byte list" | RdFail

text \<open>
  The members of \<^verbatim>\<open>class Snapuserd\<close>, and what stands behind its file descriptors:
  \<^item> \<open>cow\<close>: the COW device behind \<^verbatim>\<open>cow_fd_\<close>, \<^verbatim>\<open>reader_\<close> and \<^verbatim>\<open>writer_\<close>;
    \<open>merge_progress\<close> and \<open>commits\<close> record the arguments of the calls of
    \<^verbatim>\<open>UpdateMergeProgress\<close> and \<^verbatim>\<open>CommitMerge\<close>;
  \<^item> \<open>backing_store\<close>: the block \<^verbatim>\<open>ReadFullyAtOffset(backing_store_fd_, _, BLOCK_SIZE, off)\<close>
    reads at byte offset \<open>off\<close> (\<open>None\<close> when the read fails);
  \<^item> \<open>ctrl_in\<close>: what the successive reads of \<^verbatim>\<open>ctrl_fd_\<close> return; \<open>ctrl_out\<close>: the messages
    written to it (header and payload bytes); \<open>ctrl_write_ok n\<close>: whether the write after
    \<open>n\<close> successful ones succeeds;
  \<^item> \<open>cowop_iter\<close>: the operations the forward iterator \<^verbatim>\<open>cowop_iter_\<close> has not passed;
  \<^item> \<open>dispatched\<close>: the operations handed to \<^verbatim>\<open>ProcessReplaceOp\<close>, \<^verbatim>\<open>ProcessZeroOp\<close> and
    \<^verbatim>\<open>ProcessCopyOp\<close> so far, in order (a record of the calls; nothing reads it).
\<close>

record snapuserd =
  bufsink :: BufferSink
  cow :: cow_device
  backing_store :: "nat \<Rightarrow> byte list option"
  ctrl_in :: "ctrl_read list"
  ctrl_out :: "(dm_user_header \<times> byte list) list"
  ctrl_write_ok :: "nat \<Rightarrow> bool"
  vec :: "area list"
  chunk_map :: chunk_map_t
  cowop_iter :: "CowOperation list"
  num_sectors :: nat
  metadata_read_done :: bool
  merge_progress :: "int list"
  commits :: "int list"
  dispatched :: "CowOperation list"

text \<open>
  A newly constructed \<^verbatim>\<open>Snapuserd\<close> on the given devices: empty containers, and a sink
  that \<^verbatim>\<open>InitCowDevice\<close> has yet to initialise (an empty buffer).
\<close>

definition Snapuserd ::
  "cow_device \<Rightarrow> (nat \<Rightarrow> byte list option) \<Rightarrow> ctrl_read list \<Rightarrow> (nat \<Rightarrow> bool) \<Rightarrow> snapuserd" where
  "Snapuserd cow_dev backing reads wok =
     \<lparr>bufsink = Initialize 0, cow = cow_dev, backing_store = backing, ctrl_in = reads,
      ctrl_out = [], ctrl_write_ok = wok, vec = [], chunk_map = [], cowop_iter = [],
      num_sectors = 0, metadata_read_done = False, merge_progress = [], commits = [],
      dispatched = []\<rparr>"

subsection \<open>Chunk ids\<close>

text \<open>
  Modelled from the spec: \<^verbatim>\<open>ChunkToSector\<close> and \<^verbatim>\<open>SectorToChunk\<close> are defined in the class
  header, which is not part of the sources. The spec: \<open>sector = chunk * CHUNK_SIZE\<close>,
  \<open>chunk = sector / CHUNK_SIZE\<close>.
\<close>

definition ChunkToSector :: "nat \<Rightarrow> nat" where
  "ChunkToSector chunk = chunk * CHUNK_SIZE"

definition SectorToChunk :: "nat \<Rightarrow> nat" where
  "SectorToChunk sec = sec div CHUNK_SIZE"

text \<open>\<^verbatim>\<open>Snapuserd::IsChunkIdMetadata\<close>\<close>

definition IsChunkIdMetadata :: "nat \<Rightarrow> bool" where
  "IsChunkIdMetadata chunk =
     (let stride = exceptions_per_area + 1
      in chunk mod stride = NUM_SNAPSHOT_HDR_CHUNKS)"

text \<open>\<^verbatim>\<open>Snapuserd::GetNextAllocatableChunkId\<close>\<close>

definition GetNextAllocatableChunkId :: "nat \<Rightarrow> nat" where
  "GetNextAllocatableChunkId chunk =
     (let next_chunk = chunk + 1
      in if IsChunkIdMetadata next_chunk then next_chunk + 1 else next_chunk)"

subsection \<open>The metadata build: \<^verbatim>\<open>Snapuserd::ReadMetadata\<close>\<close>

text \<open>The local variables of \<^verbatim>\<open>ReadMetadata\<close> that its loop updates.\<close>

record rm_locals =
  next_free :: nat
  prev_copy_op :: bool
  metadata_found :: bool
  de_ptr :: area
  offset :: nat
  num_ops :: nat

text \<open>
  The body of the loop for a Replace, Zero or Copy operation, from
  \<^verbatim>\<open>metadata_found = true\<close> to the end of the iteration. \<open>riter_done\<close> is the value of
  \<^verbatim>\<open>cowop_riter_->Done()\<close> after the \<^verbatim>\<open>Next()\<close> of this iteration.
\<close>

definition ReadMetadata_op ::
  "CowOperation \<Rightarrow> bool \<Rightarrow> rm_locals \<Rightarrow> snapuserd \<Rightarrow> fault + (rm_locals \<times> snapuserd)" where
  "ReadMetadata_op cow_op riter_done l s =
     (let nf = (if type cow_op = kCowCopyOp \<or> prev_copy_op l
                then GetNextAllocatableChunkId (next_free l) else next_free l)
      in case area_write (de_ptr l) (offset l)
                \<lparr>old_chunk = new_block cow_op, new_chunk = nf\<rparr> of
           Inl e \<Rightarrow> Inl e
         | Inr de \<Rightarrow>
             let s1 = s\<lparr>chunk_map := map_assign nf cow_op (chunk_map s)\<rparr>;
                 l1 = l\<lparr>next_free := nf, prev_copy_op := (type cow_op = kCowCopyOp),
                        metadata_found := True, de_ptr := de,
                        offset := offset l + sizeof_disk_exception,
                        num_ops := num_ops l + 1\<rparr>
             in if num_ops l1 = exceptions_per_area
                then let s2 = s1\<lparr>vec := vec s1 @ [de_ptr l1]\<rparr>;
                         l2 = l1\<lparr>offset := 0, num_ops := 0, de_ptr := zero_area\<rparr>;
                         s3 = (if riter_done then s2\<lparr>vec := vec s2 @ [de_ptr l2]\<rparr> else s2)
                     in Inr (l2\<lparr>next_free := GetNextAllocatableChunkId (next_free l2)\<rparr>, s3)
                else Inr (l1\<lparr>next_free := GetNextAllocatableChunkId (next_free l1)\<rparr>, s1))"

text \<open>
  The loop \<^verbatim>\<open>while (!cowop_riter_->Done())\<close> over the operations the reverse iterator still
  has to yield. The boolean is \<open>False\<close> when the loop leaves the function with
  \<^verbatim>\<open>return false\<close> (an unknown operation type).
\<close>

fun ReadMetadata_loop ::
  "CowOperation list \<Rightarrow> rm_locals \<Rightarrow> snapuserd \<Rightarrow> fault + (bool \<times> rm_locals \<times> snapuserd)" where
  "ReadMetadata_loop [] l s = Inr (True, l, s)"
| "ReadMetadata_loop (cow_op # riter) l s =
     (if type cow_op = kCowFooterOp \<or> type cow_op = kCowLabelOp
      then ReadMetadata_loop riter l s
      else if \<not> (type cow_op = kCowReplaceOp \<or> type cow_op = kCowZeroOp \<or>
                  type cow_op = kCowCopyOp)
      then Inr (False, l, s)
      else case ReadMetadata_op cow_op (riter = []) l s of
             Inl e \<Rightarrow> Inl e
           | Inr (l', s') \<Rightarrow> ReadMetadata_loop riter l' s')"

definition rm_init :: rm_locals where
  "rm_init = \<lparr>next_free = NUM_SNAPSHOT_HDR_CHUNKS + 1, prev_copy_op = False,
              metadata_found = False, de_ptr = zero_area, offset = 0, num_ops = 0\<rparr>"

text \<open>
  \<^verbatim>\<open>ReadMetadata\<close>: the result is the returned boolean and the state. (\<^verbatim>\<open>InitializeMerge\<close> of
  the external writer has no effect on this state.)
\<close>

definition ReadMetadata :: "snapuserd \<Rightarrow> fault + (bool \<times> snapuserd)" where
  "ReadMetadata s =
     (if \<not> cow_parse_ok (cow s) then Inr (False, s)
      else case cow_header (cow s) of
        None \<Rightarrow> Inr (False, s)
      | Some hdr \<Rightarrow>
          CHECK (block_size hdr = BLOCK_SIZE) ''header.block_size == BLOCK_SIZE''
            (case ReadMetadata_loop (rev (cow_ops (cow s))) rm_init s of
               Inl e \<Rightarrow> Inl e
             | Inr (ok, l, s1) \<Rightarrow>
                 if \<not> ok then Inr (False, s1)
                 else
                   let s2 = (if num_ops l \<noteq> 0 \<or> \<not> metadata_found l
                             then s1\<lparr>vec := vec s1 @ [de_ptr l]\<rparr> else s1)
                   in Inr (True, s2\<lparr>cowop_iter := cow_ops (cow s),
                                     num_sectors := ChunkToSector (next_free l),
                                     metadata_read_done := True\<rparr>)))"

text \<open>The operations that receive a chunk id: Replace, Zero and Copy.\<close>

definition mergeable :: "CowOperation \<Rightarrow> bool" where
  "mergeable cow_op =
     (type cow_op = kCowReplaceOp \<or> type cow_op = kCowZeroOp \<or> type cow_op = kCowCopyOp)"


subsection \<open>Bytes\<close>

text \<open>
  The \<open>n\<close> bytes of an unsigned integer in memory, and the integer a run of bytes holds.
  The daemon's targets, and the wire format, are little-endian.
\<close>

definition le_bytes :: "nat \<Rightarrow> nat \<Rightarrow> byte list" where
  "le_bytes n v = map (\<lambda>i. word_of_nat (v div 256 ^ i)) [0..<n]"

definition le_nat :: "byte list \<Rightarrow> nat" where
  "le_nat bs = foldr (\<lambda>b acc. unat b + 256 * acc) bs 0"

text \<open>The bytes of an area in memory (the source of \<^verbatim>\<open>memcpy\<close> in \<^verbatim>\<open>ReadDiskExceptions\<close>).\<close>

definition de_bytes :: "disk_exception \<Rightarrow> byte list" where
  "de_bytes de = le_bytes 8 (old_chunk de) @ le_bytes 8 (new_chunk de)"

definition area_bytes :: "area \<Rightarrow> byte list" where
  "area_bytes a = concat (map de_bytes a)"

text \<open>
  \<^verbatim>\<open>reinterpret_cast<struct disk_exception*>((char*)buffer + off)\<close> dereferenced, for a buffer
  of bytes (the page the kernel wrote, in the sink's payload).
\<close>

definition de_at :: "byte list \<Rightarrow> nat \<Rightarrow> fault + disk_exception" where
  "de_at buf off =
     (if off + sizeof_disk_exception \<le> length buf
      then Inr \<lparr>old_chunk = le_nat (take 8 (drop off buf)),
                new_chunk = le_nat (take 8 (drop (off + 8) buf))\<rparr>
      else Inl OutOfBounds)"

subsection \<open>Serving reads\<close>

text \<open>
  Modelled from the spec: \<^verbatim>\<open>SNAP_MAGIC\<close>, \<^verbatim>\<open>SNAPSHOT_VALID\<close> and \<^verbatim>\<open>SNAPSHOT_DISK_VERSION\<close> are
  declared in a header that is not part of the sources; the spec says they are fixed by the
  kernel snapshot format, whose values these are.
\<close>

definition SNAP_MAGIC :: nat where "SNAP_MAGIC = 0x70416e53"
definition SNAPSHOT_VALID :: nat where "SNAPSHOT_VALID = 1"
definition SNAPSHOT_DISK_VERSION :: nat where "SNAPSHOT_DISK_VERSION = 1"

text \<open>
  Modelled from the spec: the request and response codes of the \<open>type\<close> field are declared
  in the kernel's dm-user header, not part of the sources; the spec gives the two request
  codes, the response codes are the kernel's.
\<close>

definition DM_USER_REQ_MAP_READ :: nat where "DM_USER_REQ_MAP_READ = 0"
definition DM_USER_REQ_MAP_WRITE :: nat where "DM_USER_REQ_MAP_WRITE = 1"
definition DM_USER_RESP_SUCCESS :: nat where "DM_USER_RESP_SUCCESS = 0"
definition DM_USER_RESP_ERROR :: nat where "DM_USER_RESP_ERROR = 1"

text \<open>A store through a pointer that \<^verbatim>\<open>GetPayloadBuffer\<close> returned, into the sink of \<open>s\<close>.\<close>

definition store :: "snapuserd \<Rightarrow> nat \<Rightarrow> byte list \<Rightarrow> fault + snapuserd" where
  "store s buf bs =
     (case payload_store (bufsink s) buf bs of
        Inl e \<Rightarrow> Inl e
      | Inr b \<Rightarrow> Inr (s\<lparr>bufsink := b\<rparr>))"

text \<open>\<^verbatim>\<open>Snapuserd::ConstructKernelCowHeader\<close>\<close>

definition ConstructKernelCowHeader :: "snapuserd \<Rightarrow> fault + snapuserd" where
  "ConstructKernelCowHeader s =
     (case GetPayloadBuffer (bufsink s) BLOCK_SIZE of
        None \<Rightarrow> Inl (CheckFailed ''buffer != nullptr'')
      | Some buf \<Rightarrow>
          store s buf
            (le_bytes 4 SNAP_MAGIC @ le_bytes 4 SNAPSHOT_VALID @
             le_bytes 4 SNAPSHOT_DISK_VERSION @ le_bytes 4 CHUNK_SIZE @
             replicate (BLOCK_SIZE - 16) 0))"

text \<open>
  \<^verbatim>\<open>Snapuserd::ProcessReplaceOp\<close>. Modelled from the spec: \<^verbatim>\<open>CowReader::ReadData\<close> is external;
  the spec says it writes the block of the operation into the sink at its current offset
  (it asks the sink for the room with \<^verbatim>\<open>GetBuffer\<close>), or fails.
\<close>

definition ProcessReplaceOp :: "snapuserd \<Rightarrow> CowOperation \<Rightarrow> fault + (bool \<times> snapuserd)" where
  "ProcessReplaceOp s cow_op =
     (case cow_data (cow s) cow_op of
        None \<Rightarrow> Inr (False, s)
      | Some d \<Rightarrow>
          (case fst (GetBuffer (bufsink s) (length d)) of
             None \<Rightarrow> Inr (False, s)
           | Some buf \<Rightarrow>
               (case store s buf d of Inl e \<Rightarrow> Inl e | Inr s' \<Rightarrow> Inr (True, s'))))"

text \<open>
  \<^verbatim>\<open>Snapuserd::ProcessCopyOp\<close>: one block of the backing device at \<open>source * BLOCK_SIZE\<close>;
  \<^verbatim>\<open>ReadFullyAtOffset\<close> fails unless it gets the whole block.
\<close>

definition ProcessCopyOp :: "snapuserd \<Rightarrow> CowOperation \<Rightarrow> fault + (bool \<times> snapuserd)" where
  "ProcessCopyOp s cow_op =
     (case GetPayloadBuffer (bufsink s) BLOCK_SIZE of
        None \<Rightarrow> Inl (CheckFailed ''buffer != nullptr'')
      | Some buf \<Rightarrow>
          (case backing_store s (source cow_op * BLOCK_SIZE) of
             None \<Rightarrow> Inr (False, s)
           | Some d \<Rightarrow>
               if length d \<noteq> BLOCK_SIZE then Inr (False, s)
               else (case store s buf d of Inl e \<Rightarrow> Inl e | Inr s' \<Rightarrow> Inr (True, s'))))"

text \<open>\<^verbatim>\<open>Snapuserd::ProcessZeroOp\<close>\<close>

definition ProcessZeroOp :: "snapuserd \<Rightarrow> fault + (bool \<times> snapuserd)" where
  "ProcessZeroOp s =
     (case GetPayloadBuffer (bufsink s) BLOCK_SIZE of
        None \<Rightarrow> Inl (CheckFailed ''buffer != nullptr'')
      | Some buf \<Rightarrow>
          (case store s buf (replicate BLOCK_SIZE 0) of
             Inl e \<Rightarrow> Inl e | Inr s' \<Rightarrow> Inr (True, s')))"

text \<open>
  The \<^verbatim>\<open>switch (cow_op->type)\<close> of \<^verbatim>\<open>ReadData\<close>. An operation handed to one of the three
  functions is appended to \<open>dispatched\<close>.
\<close>

definition ReadData_switch :: "snapuserd \<Rightarrow> CowOperation \<Rightarrow> fault + (bool \<times> snapuserd)" where
  "ReadData_switch s cow_op =
     (case type cow_op of
        kCowReplaceOp \<Rightarrow> ProcessReplaceOp (s\<lparr>dispatched := dispatched s @ [cow_op]\<rparr>) cow_op
      | kCowZeroOp \<Rightarrow> ProcessZeroOp (s\<lparr>dispatched := dispatched s @ [cow_op]\<rparr>)
      | kCowCopyOp \<Rightarrow> ProcessCopyOp (s\<lparr>dispatched := dispatched s @ [cow_op]\<rparr>) cow_op
      | _ \<Rightarrow> Inr (False, s))"

text \<open>
  The loop \<^verbatim>\<open>while (read_size > 0)\<close> of \<^verbatim>\<open>ReadData\<close>. The boolean is \<open>False\<close> when the loop
  leaves the function with \<^verbatim>\<open>return false\<close>. \<^verbatim>\<open>chunk_map_[chunk_key]\<close> of an absent key yields
  a null pointer, on which the \<^verbatim>\<open>CHECK\<close> fails. \<open>read_size\<close> is a positive multiple of the block
  size here (\<^verbatim>\<open>ReadData\<close> has checked it), so \<open>read_size - BLOCK_SIZE\<close> does not wrap.
\<close>

function ReadData_loop :: "snapuserd \<Rightarrow> nat \<Rightarrow> nat \<Rightarrow> fault + (bool \<times> snapuserd)" where
  "ReadData_loop s chunk_key read_size =
     (if read_size > 0 then
        case map_of (chunk_map s) chunk_key of
          None \<Rightarrow> Inl (CheckFailed ''cow_op != nullptr'')
        | Some cow_op \<Rightarrow>
            (case ReadData_switch s cow_op of
               Inl e \<Rightarrow> Inl e
             | Inr (ret, s1) \<Rightarrow>
                 if \<not> ret then Inr (False, s1)
                 else if type cow_op = kCowCopyOp \<and> read_size - BLOCK_SIZE \<noteq> 0
                 then Inl (CheckFailed ''read_size == 0'')
                 else if (chunk_key + 1) mod (exceptions_per_area + 1) = NUM_SNAPSHOT_HDR_CHUNKS
                 then CHECK (read_size - BLOCK_SIZE = 0) ''read_size == 0''
                        (Inr (True, s1\<lparr>bufsink := UpdateBufferOffset (bufsink s1) BLOCK_SIZE\<rparr>))
                 else ReadData_loop (s1\<lparr>bufsink := UpdateBufferOffset (bufsink s1) BLOCK_SIZE\<rparr>)
                        (chunk_key + 1) (read_size - BLOCK_SIZE))
      else Inr (True, s))"
  by pat_completeness auto
termination
  by (relation "measure (\<lambda>(s, chunk_key, read_size). read_size)") (auto simp: BLOCK_SIZE_def)

declare ReadData_loop.simps [simp del]

text \<open>
  \<^verbatim>\<open>Snapuserd::ReadData\<close>. \<^verbatim>\<open>(read_size & (BLOCK_SIZE - 1)) == 0\<close> is divisibility by the block
  size. A \<^verbatim>\<open>return false\<close> inside the loop skips \<^verbatim>\<open>ResetBufferOffset\<close>.
\<close>

definition ReadData :: "snapuserd \<Rightarrow> nat \<Rightarrow> nat \<Rightarrow> fault + (bool \<times> snapuserd)" where
  "ReadData s chunk sz =
     CHECK (sz mod BLOCK_SIZE = 0) ''(read_size & (BLOCK_SIZE - 1)) == 0''
       (case ReadData_loop s chunk sz of
          Inl e \<Rightarrow> Inl e
        | Inr (ret, s') \<Rightarrow>
            if \<not> ret then Inr (False, s')
            else Inr (True, s'\<lparr>bufsink := ResetBufferOffset (bufsink s')\<rparr>))"

text \<open>\<^verbatim>\<open>Snapuserd::ZerofillDiskExceptions\<close>\<close>

definition ZerofillDiskExceptions :: "snapuserd \<Rightarrow> nat \<Rightarrow> fault + (bool \<times> snapuserd)" where
  "ZerofillDiskExceptions s read_size =
     (let sz = exceptions_per_area * sizeof_disk_exception
      in if read_size > sz then Inr (False, s)
         else case GetPayloadBuffer (bufsink s) sz of
                None \<Rightarrow> Inl (CheckFailed ''buffer != nullptr'')
              | Some buf \<Rightarrow>
                  (case store s buf (replicate sz 0) of
                     Inl e \<Rightarrow> Inl e | Inr s' \<Rightarrow> Inr (True, s')))"

text \<open>
  \<^verbatim>\<open>Snapuserd::ReadDiskExceptions\<close>. \<^verbatim>\<open>memcpy\<close> reads \<open>sz\<close> bytes of the area, which must have
  them.
\<close>

definition ReadDiskExceptions :: "snapuserd \<Rightarrow> nat \<Rightarrow> nat \<Rightarrow> fault + (bool \<times> snapuserd)" where
  "ReadDiskExceptions s chunk read_size =
     (let stride = exceptions_per_area + 1; quot = chunk div stride
      in if quot < length (vec s) then
           let sz = exceptions_per_area * sizeof_disk_exception
           in if read_size > sz then Inr (False, s)
              else case GetPayloadBuffer (bufsink s) sz of
                     None \<Rightarrow> Inl (CheckFailed ''buffer != nullptr'')
                   | Some buf \<Rightarrow>
                       if length (area_bytes (vec s ! quot)) < sz then Inl OutOfBounds
                       else (case store s buf (take sz (area_bytes (vec s ! quot))) of
                               Inl e \<Rightarrow> Inl e | Inr s' \<Rightarrow> Inr (True, s'))
         else ZerofillDiskExceptions s read_size)"

subsection \<open>Merge reconciliation\<close>

text \<open>
  The loop of \<^verbatim>\<open>Snapuserd::GetMergeStartOffset\<close>:
  \<^verbatim>\<open>while (*unmerged_exceptions <= exceptions_per_area_)\<close>. \<open>merged_buffer\<close> is the memory at
  the pointer the kernel's page was read to, \<open>unmerged_buffer\<close> the stored area. The stored
  entry \<open>cow_de\<close> is dereferenced only in the branch of an unmerged exception.
\<close>

function GetMergeStartOffset_loop ::
  "byte list \<Rightarrow> area \<Rightarrow> nat \<Rightarrow> nat \<Rightarrow> fault + (nat \<times> nat)" where
  "GetMergeStartOffset_loop merged_buffer unmerged_buffer off unmerged_exceptions =
     (if unmerged_exceptions \<le> exceptions_per_area then
        case de_at merged_buffer off of
          Inl e \<Rightarrow> Inl e
        | Inr merged_de \<Rightarrow>
            if old_chunk merged_de \<noteq> 0 then
              CHECK (new_chunk merged_de \<noteq> 0) ''merged_de->new_chunk != 0''
                (case area_read unmerged_buffer off of
                   Inl e \<Rightarrow> Inl e
                 | Inr cow_de \<Rightarrow>
                     CHECK (old_chunk merged_de = old_chunk cow_de)
                       ''merged_de->old_chunk == cow_de->old_chunk''
                       (CHECK (new_chunk merged_de = new_chunk cow_de)
                          ''merged_de->new_chunk == cow_de->new_chunk''
                          (GetMergeStartOffset_loop merged_buffer unmerged_buffer
                             (off + sizeof_disk_exception) (unmerged_exceptions + 1))))
            else
              CHECK (new_chunk merged_de = 0) ''merged_de->new_chunk == 0''
                (CHECK (old_chunk merged_de = 0) ''merged_de->old_chunk == 0''
                   (Inr (off, unmerged_exceptions)))
      else Inr (off, unmerged_exceptions))"
  by pat_completeness auto
termination
  by (relation "measure (\<lambda>(m, u, off, n). Suc exceptions_per_area - n)") auto

declare GetMergeStartOffset_loop.simps [simp del]

text \<open>\<^verbatim>\<open>Snapuserd::GetMergeStartOffset\<close>: the offset and \<^verbatim>\<open>*unmerged_exceptions\<close>.\<close>

definition GetMergeStartOffset :: "byte list \<Rightarrow> area \<Rightarrow> fault + (nat \<times> nat)" where
  "GetMergeStartOffset merged_buffer unmerged_buffer =
     (case GetMergeStartOffset_loop merged_buffer unmerged_buffer 0 0 of
        Inl e \<Rightarrow> Inl e
      | Inr (off, unmerged_exceptions) \<Rightarrow>
          CHECK (\<not> (unmerged_exceptions = exceptions_per_area))
            ''!(*unmerged_exceptions == exceptions_per_area_)''
            (Inr (off, unmerged_exceptions)))"

text \<open>
  \<^verbatim>\<open>Snapuserd::GetNumberOfMergedOps\<close>, as its loop: the count so far is an argument. The
  result is the returned \<^verbatim>\<open>int\<close> (\<open>-1\<close> for invalid metadata) and the stored area, whose merged
  entries the loop zeroes in place.
\<close>

function GetNumberOfMergedOps_loop ::
  "byte list \<Rightarrow> area \<Rightarrow> nat \<Rightarrow> nat \<Rightarrow> nat \<Rightarrow> fault + (int \<times> area)" where
  "GetNumberOfMergedOps_loop merged_buffer unmerged_buffer off unmerged_exceptions
       merged_ops_cur_iter =
     (if unmerged_exceptions + merged_ops_cur_iter \<le> exceptions_per_area then
        case de_at merged_buffer off of
          Inl e \<Rightarrow> Inl e
        | Inr merged_de \<Rightarrow>
            CHECK (new_chunk merged_de = 0) ''merged_de->new_chunk == 0''
              (CHECK (old_chunk merged_de = 0) ''merged_de->old_chunk == 0''
                 (case area_read unmerged_buffer off of
                    Inl e \<Rightarrow> Inl e
                  | Inr cow_de \<Rightarrow>
                      if new_chunk cow_de \<noteq> 0 then
                        (case area_write unmerged_buffer off zero_de of
                           Inl e \<Rightarrow> Inl e
                         | Inr unmerged_buffer' \<Rightarrow>
                             GetNumberOfMergedOps_loop merged_buffer unmerged_buffer'
                               (off + sizeof_disk_exception) unmerged_exceptions
                               (merged_ops_cur_iter + 1))
                      else if old_chunk cow_de = 0 then
                        CHECK (new_chunk cow_de = 0) ''cow_de->new_chunk == 0''
                          (Inr (int merged_ops_cur_iter, unmerged_buffer))
                      else Inr (- 1, unmerged_buffer)))
      else Inr (int merged_ops_cur_iter, unmerged_buffer))"
  by pat_completeness auto
termination
  by (relation "measure (\<lambda>(m, u, off, n, k). Suc exceptions_per_area - (n + k))") auto

declare GetNumberOfMergedOps_loop.simps [simp del]

definition GetNumberOfMergedOps ::
  "byte list \<Rightarrow> area \<Rightarrow> nat \<Rightarrow> nat \<Rightarrow> fault + (int \<times> area)" where
  "GetNumberOfMergedOps merged_buffer unmerged_buffer off unmerged_exceptions =
     GetNumberOfMergedOps_loop merged_buffer unmerged_buffer off unmerged_exceptions 0"

text \<open>
  The loop of \<^verbatim>\<open>Snapuserd::AdvanceMergedOps\<close> over the operations the forward iterator has
  not passed: \<^verbatim>\<open>while (!cowop_iter_->Done() && merged_ops_cur_iter)\<close>. The result: \<open>False\<close>
  for \<^verbatim>\<open>return false\<close>, the iterator and the count left.
\<close>

fun AdvanceMergedOps_loop ::
  "CowOperation list \<Rightarrow> int \<Rightarrow> bool \<times> CowOperation list \<times> int" where
  "AdvanceMergedOps_loop [] merged_ops_cur_iter = (True, [], merged_ops_cur_iter)"
| "AdvanceMergedOps_loop (cow_op # iter) merged_ops_cur_iter =
     (if merged_ops_cur_iter = 0 then (True, cow_op # iter, merged_ops_cur_iter)
      else if type cow_op = kCowFooterOp \<or> type cow_op = kCowLabelOp
      then AdvanceMergedOps_loop iter merged_ops_cur_iter
      else if \<not> (type cow_op = kCowReplaceOp \<or> type cow_op = kCowZeroOp \<or>
                  type cow_op = kCowCopyOp)
      then (False, cow_op # iter, merged_ops_cur_iter)
      else AdvanceMergedOps_loop iter (merged_ops_cur_iter - 1))"

text \<open>\<^verbatim>\<open>Snapuserd::AdvanceMergedOps\<close>\<close>

definition AdvanceMergedOps :: "snapuserd \<Rightarrow> int \<Rightarrow> fault + (bool \<times> snapuserd)" where
  "AdvanceMergedOps s merged_ops_cur_iter =
     (case AdvanceMergedOps_loop (cowop_iter s) merged_ops_cur_iter of
        (ok, iter, n) \<Rightarrow>
          if \<not> ok then Inr (False, s\<lparr>cowop_iter := iter\<rparr>)
          else if iter = []
          then CHECK (n = 0) ''merged_ops_cur_iter == 0'' (Inr (True, s\<lparr>cowop_iter := iter\<rparr>))
          else Inr (True, s\<lparr>cowop_iter := iter\<rparr>))"

text \<open>
  \<^verbatim>\<open>Snapuserd::ProcessMergeComplete\<close>. \<open>hdr\<close> is the function's local copy of the COW header;
  \<open>hdr'\<close> is that copy after \<^verbatim>\<open>header.num_merge_ops += merged_ops_cur_iter\<close>, which nothing
  reads.
\<close>

definition ProcessMergeComplete ::
  "snapuserd \<Rightarrow> nat \<Rightarrow> byte list \<Rightarrow> fault + (bool \<times> snapuserd)" where
  "ProcessMergeComplete s chunk buffer =
     (let stride = exceptions_per_area + 1
      in case cow_header (cow s) of
           None \<Rightarrow> Inr (False, s)
         | Some hdr \<Rightarrow>
             let quot = chunk div stride
             in CHECK (quot < length (vec s)) ''divresult.quot < vec_.size()''
                  (case GetMergeStartOffset buffer (vec s ! quot) of
                     Inl e \<Rightarrow> Inl e
                   | Inr (off, unmerged_exceptions) \<Rightarrow>
                       (case GetNumberOfMergedOps buffer (vec s ! quot) off
                               unmerged_exceptions of
                          Inl e \<Rightarrow> Inl e
                        | Inr (merged_ops_cur_iter, a) \<Rightarrow>
                            let s1 = s\<lparr>vec := (vec s)[quot := a]\<rparr>
                            in CHECK (merged_ops_cur_iter > 0) ''merged_ops_cur_iter > 0''
                                 (case AdvanceMergedOps s1 merged_ops_cur_iter of
                                    Inl e \<Rightarrow> Inl e
                                  | Inr (ok, s2) \<Rightarrow>
                                      if \<not> ok then Inr (False, s2)
                                      else
                                        let hdr' = hdr\<lparr>num_merge_ops :=
                                                     num_merge_ops hdr + nat merged_ops_cur_iter\<rparr>;
                                            s3 = s2\<lparr>merge_progress :=
                                                     merge_progress s2 @ [merged_ops_cur_iter]\<rparr>;
                                            s4 = s3\<lparr>commits := commits s3 @ [merged_ops_cur_iter]\<rparr>
                                        in if \<not> cow_commit_ok (cow s3) (length (commits s3))
                                           then Inr (False, s4)
                                           else Inr (True, s4)))))"

subsection \<open>The control device and the request loop\<close>

text \<open>\<^verbatim>\<open>header->type = t\<close> through the pointer \<^verbatim>\<open>GetHeaderPtr\<close> returned.\<close>

definition set_type :: "snapuserd \<Rightarrow> nat \<Rightarrow> snapuserd" where
  "set_type s t = s\<lparr>bufsink := (bufsink s)\<lparr>header := (header (bufsink s))\<lparr>req_type := t\<rparr>\<rparr>\<rparr>"

text \<open>\<^verbatim>\<open>Snapuserd::ReadDmUserHeader\<close>: the header is read to the start of the sink's buffer.\<close>

definition ReadDmUserHeader :: "snapuserd \<Rightarrow> bool \<times> snapuserd" where
  "ReadDmUserHeader s =
     (case ctrl_in s of
        RdHeader h # rest \<Rightarrow> (True, s\<lparr>bufsink := (bufsink s)\<lparr>header := h\<rparr>, ctrl_in := rest\<rparr>)
      | _ # rest \<Rightarrow> (False, s\<lparr>ctrl_in := rest\<rparr>)
      | [] \<Rightarrow> (False, s))"

text \<open>
  \<^verbatim>\<open>Snapuserd::WriteDmUserPayload\<close>: the header and the first \<open>sz\<close> bytes of the payload go to
  the control device.
\<close>

definition WriteDmUserPayload :: "snapuserd \<Rightarrow> nat \<Rightarrow> bool \<times> snapuserd" where
  "WriteDmUserPayload s sz =
     (if ctrl_write_ok s (length (ctrl_out s))
      then (True, s\<lparr>ctrl_out := ctrl_out s @
                       [(header (bufsink s), take sz (payload (bufsink s)))]\<rparr>)
      else (False, s))"

text \<open>\<^verbatim>\<open>Snapuserd::ReadDmUserPayload\<close>: \<open>sz\<close> bytes are read to the pointer \<open>buf\<close>.\<close>

definition ReadDmUserPayload :: "snapuserd \<Rightarrow> nat \<Rightarrow> nat \<Rightarrow> fault + (bool \<times> snapuserd)" where
  "ReadDmUserPayload s buf sz =
     (case ctrl_in s of
        RdPayload bs # rest \<Rightarrow>
          if length bs \<noteq> sz then Inr (False, s\<lparr>ctrl_in := rest\<rparr>)
          else (case store (s\<lparr>ctrl_in := rest\<rparr>) buf bs of
                  Inl e \<Rightarrow> Inl e | Inr s' \<Rightarrow> Inr (True, s'))
      | _ # rest \<Rightarrow> Inr (False, s\<lparr>ctrl_in := rest\<rparr>)
      | [] \<Rightarrow> Inr (False, s))"

text \<open>\<^verbatim>\<open>Snapuserd::InitCowDevice\<close>\<close>

definition InitCowDevice :: "snapuserd \<Rightarrow> fault + (bool \<times> snapuserd)" where
  "InitCowDevice s =
     (if \<not> cow_open_ok (cow s) then Inr (False, s)
      else let buf_size = sizeof_dm_user_header + PAYLOAD_SIZE
           in ReadMetadata (s\<lparr>bufsink := Initialize buf_size\<rparr>))"

text \<open>
  One pass of the \<^verbatim>\<open>do { ... } while (remaining_size)\<close> of a read request, up to and
  including \<^verbatim>\<open>WriteDmUserPayload(read_size)\<close>; the boolean is the result of that write.
\<close>

definition Run_read_frame :: "snapuserd \<Rightarrow> nat \<Rightarrow> nat \<Rightarrow> fault + (bool \<times> snapuserd)" where
  "Run_read_frame s remaining_size off =
     (let read_size = min PAYLOAD_SIZE remaining_size;
          s1 = set_type s DM_USER_RESP_SUCCESS;
          outcome =
            (if sector (header (bufsink s1)) = 0 then
               CHECK (metadata_read_done s1 = True) ''metadata_read_done_ == true''
                 (CHECK (read_size = BLOCK_SIZE) ''read_size == BLOCK_SIZE''
                    (ConstructKernelCowHeader s1))
             else
               let chunk = SectorToChunk (sector (header (bufsink s1)))
               in if map_of (chunk_map s1) chunk = None then
                    (case ReadDiskExceptions s1 chunk read_size of
                       Inl e \<Rightarrow> Inl e
                     | Inr (ok, s2) \<Rightarrow>
                         Inr (if \<not> ok then set_type s2 DM_USER_RESP_ERROR else s2))
                  else
                    let num_chunks_read = off div 2 ^ BLOCK_SHIFT
                    in (case ReadData s1 (chunk + num_chunks_read) read_size of
                          Inl e \<Rightarrow> Inl e
                        | Inr (ok, s2) \<Rightarrow>
                            Inr (if \<not> ok then set_type s2 DM_USER_RESP_ERROR else s2)))
      in case outcome of
           Inl e \<Rightarrow> Inl e
         | Inr s3 \<Rightarrow> Inr (WriteDmUserPayload s3 read_size))"

text \<open>The \<^verbatim>\<open>do { ... } while (remaining_size)\<close> of a read request.\<close>

function Run_read :: "snapuserd \<Rightarrow> nat \<Rightarrow> nat \<Rightarrow> fault + (bool \<times> snapuserd)" where
  "Run_read s remaining_size off =
     (case Run_read_frame s remaining_size off of
        Inl e \<Rightarrow> Inl e
      | Inr (ok, s') \<Rightarrow>
          if \<not> ok then Inr (False, s')
          else if remaining_size - min PAYLOAD_SIZE remaining_size \<noteq> 0
          then Run_read s' (remaining_size - min PAYLOAD_SIZE remaining_size)
                 (off + min PAYLOAD_SIZE remaining_size)
          else Inr (True, s'))"
  by pat_completeness auto
termination
  by (relation "measure (\<lambda>(s, remaining_size, off). remaining_size)")
     (auto simp: PAYLOAD_SIZE_def min_def split: if_splits)

declare Run_read.simps [simp del]

text \<open>The \<^verbatim>\<open>case DM_USER_REQ_MAP_WRITE\<close> of \<^verbatim>\<open>Run\<close>: a flush, or a merge-complete write.\<close>

definition Run_write :: "snapuserd \<Rightarrow> fault + (bool \<times> snapuserd)" where
  "Run_write s =
     (if sector (header (bufsink s)) = 0 then
        CHECK (len (header (bufsink s)) = 0) ''header->len == 0''
          (Inr (WriteDmUserPayload (set_type s DM_USER_RESP_SUCCESS) 0))
      else
        let remaining_size = len (header (bufsink s));
            read_size = min PAYLOAD_SIZE remaining_size
        in CHECK (read_size = BLOCK_SIZE) ''read_size == BLOCK_SIZE''
             (CHECK (sector (header (bufsink s)) > 0) ''header->sector > 0''
                (let chunk = SectorToChunk (sector (header (bufsink s)))
                 in CHECK (map_of (chunk_map s) chunk = None)
                      ''chunk_map_.find(chunk) == chunk_map_.end()''
                      (case GetPayloadBuffer (bufsink s) read_size of
                         None \<Rightarrow> Inl (CheckFailed ''buffer != nullptr'')
                       | Some buf \<Rightarrow>
                           (case ReadDmUserPayload (set_type s DM_USER_RESP_SUCCESS) buf
                                   read_size of
                              Inl e \<Rightarrow> Inl e
                            | Inr (got, s1) \<Rightarrow>
                                let s2 = (if \<not> got then set_type s1 DM_USER_RESP_ERROR else s1)
                                in if req_type (header (bufsink s2)) = DM_USER_RESP_SUCCESS then
                                     (case ProcessMergeComplete s2 chunk
                                             (drop buf (payload (bufsink s2))) of
                                        Inl e \<Rightarrow> Inl e
                                      | Inr (ok, s3) \<Rightarrow>
                                          Inr (WriteDmUserPayload
                                                 (if \<not> ok then set_type s3 DM_USER_RESP_ERROR
                                                  else s3) 0))
                                   else Inr (WriteDmUserPayload s2 0))))))"

text \<open>
  \<^verbatim>\<open>Snapuserd::Run\<close>: one request. The \<^verbatim>\<open>switch (header->type)\<close> has the two cases and no
  default.
\<close>

definition Run :: "snapuserd \<Rightarrow> fault + (bool \<times> snapuserd)" where
  "Run s =
     (case GetHeaderPtr (bufsink s) of
        Inl e \<Rightarrow> Inl e
      | Inr _ \<Rightarrow>
          (case ReadDmUserHeader (s\<lparr>bufsink := Clear (bufsink s)\<rparr>) of
             (got, s1) \<Rightarrow>
               if \<not> got then Inr (False, s1)
               else if req_type (header (bufsink s1)) = DM_USER_REQ_MAP_READ
               then Run_read s1 (len (header (bufsink s1))) 0
               else if req_type (header (bufsink s1)) = DM_USER_REQ_MAP_WRITE
               then Run_write s1
               else Inr (True, s1)))"

subsection \<open>Notions used to state the properties\<close>

text \<open>The chunk id the loop body assigns to an operation.\<close>

definition rm_nf :: "CowOperation \<Rightarrow> rm_locals \<Rightarrow> nat" where
  "rm_nf cow_op l = (if type cow_op = kCowCopyOp \<or> prev_copy_op l
                then GetNextAllocatableChunkId (next_free l) else next_free l)"

text \<open>The loop invariant of \<^verbatim>\<open>ReadMetadata\<close>, in parts.\<close>

definition keys_below :: "rm_locals \<Rightarrow> snapuserd \<Rightarrow> bool" where
  "keys_below l s = (\<forall>k\<in>fst ` set (chunk_map s). k < next_free l)"

definition slot_ok :: "rm_locals \<Rightarrow> bool" where
  "slot_ok l = (num_ops l < exceptions_per_area \<and> offset l = sizeof_disk_exception * num_ops l \<and> length (de_ptr l) = exceptions_per_area)"

text \<open>The disk exception built for an entry of the chunk map.\<close>

definition de_of :: "nat \<times> CowOperation \<Rightarrow> disk_exception" where
  "de_of e = \<lparr>old_chunk = new_block (snd e), new_chunk = fst e\<rparr>"

text \<open>
  \<open>x\<close> says that the loop has just pushed the spare zero-filled area (the iterator was done
  when an area became full); \<open>V\<close> are the full areas pushed before it.
\<close>

definition rm_inv :: "bool \<Rightarrow> rm_locals \<Rightarrow> snapuserd \<Rightarrow> bool" where
  "rm_inv x l s =
     (\<exists>V. vec s = V @ (if x then [zero_area] else []) \<and>
          (x \<longrightarrow> num_ops l = 0 \<and> chunk_map s \<noteq> []) \<and>
          keys_below l s \<and> slot_ok l \<and>
          sorted_wrt (<) (map fst (chunk_map s)) \<and>
          (\<forall>a\<in>set V. length a = exceptions_per_area) \<and>
          concat V @ take (num_ops l) (de_ptr l) = map de_of (chunk_map s) \<and>
          drop (num_ops l) (de_ptr l) = replicate (exceptions_per_area - num_ops l) zero_de \<and>
          metadata_found l = (chunk_map s \<noteq> []))"

text \<open>No key next to the key of a Copy operation.\<close>

definition copy_isolated :: "chunk_map_t \<Rightarrow> bool" where
  "copy_isolated m =
     (\<forall>e\<in>set m. type (snd e) = kCowCopyOp \<longrightarrow>
        Suc (fst e) \<notin> fst ` set m \<and> (\<forall>j. Suc j = fst e \<longrightarrow> j \<notin> fst ` set m))"

definition rm_copy_inv :: "rm_locals \<Rightarrow> snapuserd \<Rightarrow> bool" where
  "rm_copy_inv l s =
     (copy_isolated (chunk_map s) \<and>
      (\<not> prev_copy_op l \<longrightarrow>
         (\<forall>e\<in>set (chunk_map s). type (snd e) = kCowCopyOp \<longrightarrow> Suc (fst e) < next_free l)))"

text \<open>A batch of exceptions as an area: zero entries fill the page.\<close>

definition pad_area :: "disk_exception list \<Rightarrow> area" where
  "pad_area es = es @ replicate (exceptions_per_area - length es) zero_de"

text \<open>The operations the metadata build does not skip.\<close>

definition not_label_footer :: "CowOperation \<Rightarrow> bool" where
  "not_label_footer c = (type c \<noteq> kCowLabelOp \<and> type c \<noteq> kCowFooterOp)"

text \<open>The area \<open>a\<close> with the \<open>m\<close> entries from index \<open>u\<close> on zeroed.\<close>

definition zero_range :: "nat \<Rightarrow> nat \<Rightarrow> area \<Rightarrow> area" where
  "zero_range u m a =
     map (\<lambda>j. if u \<le> j \<and> j < u + m then zero_de else a ! j) [0..<length a]"

subsection \<open>Example devices\<close>

text \<open>
  A COW device that opens and parses, with block size 4096, holding the operations \<open>ops\<close>;
  every Replace operation decompresses to a block of bytes 1, every block of the backing
  device holds bytes 2, every commit succeeds.
\<close>

definition example_cow :: "CowOperation list \<Rightarrow> cow_device" where
  "example_cow ops =
     \<lparr>cow_open_ok = True, cow_parse_ok = True,
      cow_header = Some \<lparr>block_size = 4096, num_merge_ops = 0\<rparr>,
      cow_ops = ops, cow_data = (\<lambda>_. Some (replicate 4096 1)),
      cow_commit_ok = (\<lambda>_. True)\<rparr>"

text \<open>A new daemon on that device, whose control device yields the reads \<open>reads\<close>.\<close>

definition example_init :: "CowOperation list \<Rightarrow> ctrl_read list \<Rightarrow> snapuserd" where
  "example_init ops reads =
     Snapuserd (example_cow ops) (\<lambda>_. Some (replicate 4096 2)) reads (\<lambda>_. True)"

definition replace_op :: "nat \<Rightarrow> CowOperation" where
  "replace_op b = \<lparr>type = kCowReplaceOp, new_block = b, source = 0\<rparr>"

definition zero_op :: "nat \<Rightarrow> CowOperation" where
  "zero_op b = \<lparr>type = kCowZeroOp, new_block = b, source = 0\<rparr>"

definition copy_op :: "nat \<Rightarrow> nat \<Rightarrow> CowOperation" where
  "copy_op b src = \<lparr>type = kCowCopyOp, new_block = b, source = src\<rparr>"

definition label_op :: CowOperation where
  "label_op = \<lparr>type = kCowLabelOp, new_block = 0, source = 0\<rparr>"

definition footer_op :: CowOperation where
  "footer_op = \<lparr>type = kCowFooterOp, new_block = 0, source = 0\<rparr>"

text \<open>The log of the spec's scenario E2, in forward order: a Replace, then a Copy.\<close>

definition log_E2 :: "CowOperation list" where
  "log_E2 = [replace_op 10, copy_op 20 30]"

text \<open>The same log with a Label between the two and a Footer at its end.\<close>

definition log_labelled :: "CowOperation list" where
  "log_labelled = [replace_op 10, label_op, copy_op 20 30, footer_op]"

text \<open>Two Zero operations, then two Copy operations.\<close>

definition log_copies :: "CowOperation list" where
  "log_copies = [zero_op 1, zero_op 2, copy_op 20 30, copy_op 21 31]"

text \<open>As many Zero operations as fill one area exactly.\<close>

definition log_full :: "CowOperation list" where
  "log_full = map zero_op [1..<257]"

text \<open>
  The state \<^verbatim>\<open>ReadMetadata\<close> leaves for \<open>log_E2\<close> and for \<open>log_labelled\<close> (the members it
  sets): the Copy at chunk 3, the Replace at chunk 5, one area.
\<close>

definition area_E2 :: area where
  "area_E2 = zero_area[0 := \<lparr>old_chunk = 20, new_chunk = 3\<rparr>,
                       1 := \<lparr>old_chunk = 10, new_chunk = 5\<rparr>]"

definition built_E2 :: "CowOperation list \<Rightarrow> snapuserd \<Rightarrow> snapuserd" where
  "built_E2 ops s =
     s\<lparr>vec := [area_E2],
       chunk_map := [(3, copy_op 20 30), (5, replace_op 10)],
       cowop_iter := ops, num_sectors := 48, metadata_read_done := True\<rparr>"

text \<open>The state it leaves for \<open>log_copies\<close>: chunks 3, 5, 7 and 8.\<close>

definition built_copies :: "snapuserd \<Rightarrow> snapuserd" where
  "built_copies s =
     s\<lparr>vec := [zero_area[0 := \<lparr>old_chunk = 21, new_chunk = 3\<rparr>,
                          1 := \<lparr>old_chunk = 20, new_chunk = 5\<rparr>,
                          2 := \<lparr>old_chunk = 2, new_chunk = 7\<rparr>,
                          3 := \<lparr>old_chunk = 1, new_chunk = 8\<rparr>]],
       chunk_map := [(3, copy_op 21 31), (5, copy_op 20 30), (7, zero_op 2), (8, zero_op 1)],
       cowop_iter := log_copies, num_sectors := 72, metadata_read_done := True\<rparr>"

text \<open>
  The daemon serving \<open>log_E2\<close> or \<open>log_labelled\<close>: the sink initialised, the metadata built.
\<close>

definition served :: "CowOperation list \<Rightarrow> ctrl_read list \<Rightarrow> snapuserd" where
  "served ops reads =
     built_E2 ops ((example_init ops reads)
                     \<lparr>bufsink := Initialize (sizeof_dm_user_header + PAYLOAD_SIZE)\<rparr>)"

text \<open>That daemon after a read of one block at chunk 3, the chunk of the Copy.\<close>

definition copy_read :: snapuserd where
  "copy_read =
     (served log_E2 [])
       \<lparr>bufsink := (bufsink (served log_E2 []))
                     \<lparr>payload := replicate 4096 2 @ replicate 61440 0\<rparr>,
        dispatched := [copy_op 20 30]\<rparr>"

text \<open>
  That daemon after the merge of the spec's scenario E4: the kernel has written back area 0
  with both entries zeroed.
\<close>

definition merged_E4 :: snapuserd where
  "merged_E4 =
     (served log_E2 [])
       \<lparr>vec := [area_E2[0 := zero_de, 1 := zero_de]],
        cowop_iter := [], merge_progress := [2], commits := [2]\<rparr>"

text \<open>A request of a type that is neither a read nor a write, and the daemon about to read it.\<close>

definition other_header :: dm_user_header where
  "other_header = \<lparr>seq = 1, req_type = 7, flags = 0, sector = 8, len = 4096\<rparr>"

definition other_request :: snapuserd where
  "other_request = served log_E2 [RdHeader other_header]"

text \<open>
  The daemon serving \<open>log_E2\<close> inside a read request of 8192 bytes at sector 8, the sector of
  the metadata chunk 1.
\<close>

definition metadata_request :: snapuserd where
  "metadata_request =
     (served log_E2 [])
       \<lparr>bufsink := (bufsink (served log_E2 []))
          \<lparr>header := \<lparr>seq = 1, req_type = DM_USER_REQ_MAP_READ, flags = 0, sector = 8,
                       len = 8192\<rparr>\<rparr>\<rparr>"

text \<open>The daemon of \<open>metadata_request\<close> with area 0 copied to the start of the payload.\<close>

definition metadata_served :: snapuserd where
  "metadata_served =
     metadata_request\<lparr>bufsink := (bufsink metadata_request)
        \<lparr>payload := take 0 (payload (bufsink metadata_request)) @
                     area_bytes (vec metadata_request ! (1 div 257)) @
                     drop (0 + 4096) (payload (bufsink metadata_request))\<rparr>\<rparr>"

text \<open>An area whose 256 entries are all live.\<close>

definition full_area :: area where
  "full_area = map (\<lambda>i. \<lparr>old_chunk = 256 - i, new_chunk = i + 2\<rparr>) [0..<256]"

text \<open>
  A daemon whose only stored area starts with an entry that has an old chunk and no new
  chunk, about to read a merge-complete write for chunk 1 whose page is all zero.
\<close>

definition inconsistent_state :: snapuserd where
  "inconsistent_state =
     (example_init []
        [RdHeader \<lparr>seq = 1, req_type = DM_USER_REQ_MAP_WRITE, flags = 0, sector = 8,
                   len = 4096\<rparr>,
         RdPayload (replicate 4096 0)])
     \<lparr>bufsink := Initialize (sizeof_dm_user_header + PAYLOAD_SIZE),
      vec := [zero_area[0 := \<lparr>old_chunk = 5, new_chunk = 0\<rparr>]],
      metadata_read_done := True\<rparr>"

text \<open>
  A log of 257 Zero operations. The metadata build puts the exceptions of 256 of them
  into area 0, which is then full, and the exception of the remaining one into area 1.
\<close>

definition full_log :: "CowOperation list" where
  "full_log = zero_op 300 # map zero_op [1..<257]"

text \<open>
  A value for the 16 bytes of memory that follow the allocation of an area. An area handed
  to the merge functions with this entry appended to its 256 stands for the memory at the
  area's pointer, the bytes after the allocation included: the access at index 256, which
  leaves the allocation, then reads and writes this entry.
\<close>

definition neighbour :: disk_exception where
  "neighbour = \<lparr>old_chunk = 7, new_chunk = 9\<rparr>"

section \<open>Properties\<close>

subsection \<open>Constants and chunk ids\<close>

lemma exceptions_per_area_256: "exceptions_per_area = 256"
  by (simp add: exceptions_per_area_def CHUNK_SIZE_def SECTOR_SHIFT_def sizeof_disk_exception_def)

lemmas const_defs =
  BLOCK_SIZE_def BLOCK_SHIFT_def exceptions_per_area_256 sizeof_disk_exception_def
  NUM_SNAPSHOT_HDR_CHUNKS_def CHUNK_SIZE_def PAYLOAD_SIZE_def sizeof_dm_user_header_def

lemmas example_defs =
  example_init_def example_cow_def Snapuserd_def replace_op_def zero_op_def copy_op_def
  label_op_def footer_op_def

lemma GetNext_gt: "c < GetNextAllocatableChunkId c"
  by (simp add: GetNextAllocatableChunkId_def Let_def)

lemma GetNext_le: "GetNextAllocatableChunkId c \<le> c + 2"
  by (simp add: GetNextAllocatableChunkId_def Let_def)

subsection \<open>The metadata build\<close>

lemma map_assign_append:
  "\<forall>k'\<in>fst ` set m. k' < k \<Longrightarrow> map_assign k v m = m @ [(k, v)]"
  by (induction m) auto

lemma rm_nf_ge: "next_free l \<le> rm_nf cow_op l"
  using GetNext_gt[of "next_free l"] by (simp add: rm_nf_def)

lemma rm_nf_gt: "type cow_op = kCowCopyOp \<or> prev_copy_op l \<Longrightarrow> next_free l < rm_nf cow_op l"
  using GetNext_gt[of "next_free l"] by (auto simp add: rm_nf_def)

lemma ReadMetadata_op_eq:
  assumes "keys_below l s" "slot_ok l"
  shows "ReadMetadata_op cow_op d l s =
    Inr (l\<lparr>next_free := GetNextAllocatableChunkId (rm_nf cow_op l),
           prev_copy_op := (type cow_op = kCowCopyOp), metadata_found := True,
           de_ptr := (if Suc (num_ops l) = exceptions_per_area then zero_area
                      else (de_ptr l)[num_ops l := \<lparr>old_chunk = new_block cow_op, new_chunk = rm_nf cow_op l\<rparr>]),
           offset := (if Suc (num_ops l) = exceptions_per_area then 0 else sizeof_disk_exception * Suc (num_ops l)),
           num_ops := (if Suc (num_ops l) = exceptions_per_area then 0 else Suc (num_ops l))\<rparr>,
         s\<lparr>chunk_map := chunk_map s @ [(rm_nf cow_op l, cow_op)],
           vec := (if Suc (num_ops l) = exceptions_per_area
                   then vec s @ [(de_ptr l)[num_ops l := \<lparr>old_chunk = new_block cow_op, new_chunk = rm_nf cow_op l\<rparr>]]
                        @ (if d then [zero_area] else [])
                   else vec s)\<rparr>)"
proof -
  have ka: "map_assign (rm_nf cow_op l) cow_op (chunk_map s) = chunk_map s @ [(rm_nf cow_op l, cow_op)]"
    using assms(1) rm_nf_ge[of l cow_op] by (intro map_assign_append) (auto simp: keys_below_def)
  have idx: "offset l div sizeof_disk_exception = num_ops l"
    using assms(2) by (simp add: slot_ok_def sizeof_disk_exception_def)
  have lt: "num_ops l < length (de_ptr l)" using assms(2) by (simp add: slot_ok_def)
  show ?thesis
    unfolding ReadMetadata_op_def rm_nf_def[symmetric] area_write_def idx
    using lt ka assms(2) by (simp add: Let_def slot_ok_def)
qed

lemma rm_inv_init: "vec s = [] \<Longrightarrow> chunk_map s = [] \<Longrightarrow> rm_inv False rm_init s"
  by (simp add: rm_inv_def rm_init_def keys_below_def slot_ok_def zero_area_def exceptions_per_area_256)

lemma take_Suc_update: "n < length xs \<Longrightarrow> take (Suc n) (xs[n := v]) = take n xs @ [v]"
  by (simp add: take_Suc_conv_app_nth)

lemma rm_inv_step:
  assumes inv: "rm_inv False l s"
    and step: "ReadMetadata_op cow_op d l s = Inr (l', s')"
  shows "rm_inv (d \<and> num_ops l' = 0) l' s'"
    and "chunk_map s' = chunk_map s @ [(rm_nf cow_op l, cow_op)]"
proof -
  from inv obtain V where V: "vec s = V" 
    and kb: "keys_below l s" and so: "slot_ok l"
    and srt: "sorted_wrt (<) (map fst (chunk_map s))"
    and len: "\<forall>a\<in>set V. length a = exceptions_per_area"
    and cc: "concat V @ take (num_ops l) (de_ptr l) = map de_of (chunk_map s)"
    and dr: "drop (num_ops l) (de_ptr l) = replicate (exceptions_per_area - num_ops l) zero_de"
    and mf: "metadata_found l = (chunk_map s \<noteq> [])"
    by (auto simp: rm_inv_def)
  let ?nf = "rm_nf cow_op l"
  let ?de = "\<lparr>old_chunk = new_block cow_op, new_chunk = ?nf\<rparr>"
  let ?a = "(de_ptr l)[num_ops l := ?de]"
  note eq = ReadMetadata_op_eq[OF kb so, of cow_op d]
  from step eq have l': "l' = l\<lparr>next_free := GetNextAllocatableChunkId ?nf,
           prev_copy_op := (type cow_op = kCowCopyOp), metadata_found := True,
           de_ptr := (if Suc (num_ops l) = exceptions_per_area then zero_area else ?a),
           offset := (if Suc (num_ops l) = exceptions_per_area then 0 else sizeof_disk_exception * Suc (num_ops l)),
           num_ops := (if Suc (num_ops l) = exceptions_per_area then 0 else Suc (num_ops l))\<rparr>"
    and s': "s' = s\<lparr>chunk_map := chunk_map s @ [(?nf, cow_op)],
           vec := (if Suc (num_ops l) = exceptions_per_area
                   then vec s @ [?a] @ (if d then [zero_area] else [])
                   else vec s)\<rparr>"
    by simp_all
  show cm: "chunk_map s' = chunk_map s @ [(?nf, cow_op)]" by (simp add: s')
  have nlt: "num_ops l < length (de_ptr l)" and la: "length (de_ptr l) = exceptions_per_area"
    using so by (simp_all add: slot_ok_def)
  have nfge: "next_free l \<le> ?nf" by (rule rm_nf_ge)
  have kb': "keys_below l' s'"
    using kb nfge GetNext_gt[of ?nf] by (auto simp: keys_below_def l' s')
  have srt': "sorted_wrt (<) (map fst (chunk_map s'))"
    using srt kb nfge by (auto simp: cm sorted_wrt_append keys_below_def)
  have tk: "take (Suc (num_ops l)) ?a = take (num_ops l) (de_ptr l) @ [?de]"
    using nlt by (rule take_Suc_update)
  have es: "concat V @ take (Suc (num_ops l)) ?a = map de_of (chunk_map s')"
    using cc by (simp add: tk cm de_of_def)
  have dr': "drop (Suc (num_ops l)) ?a = replicate (exceptions_per_area - Suc (num_ops l)) zero_de"
  proof -
    have "drop (Suc (num_ops l)) ?a = drop (Suc (num_ops l)) (de_ptr l)" by simp
    also have "\<dots> = drop 1 (drop (num_ops l) (de_ptr l))" by simp
    also have "\<dots> = replicate (exceptions_per_area - Suc (num_ops l)) zero_de"
      unfolding dr by simp
    finally show ?thesis .
  qed
  show "rm_inv (d \<and> num_ops l' = 0) l' s'"
  proof (cases "Suc (num_ops l) = exceptions_per_area")
    case True
    have full: "take (Suc (num_ops l)) ?a = ?a" using True la by simp
    have "vec s' = (V @ [?a]) @ (if d then [zero_area] else [])" by (simp add: s' True V)
    moreover have "\<forall>a\<in>set (V @ [?a]). length a = exceptions_per_area" using len la by simp
    moreover have "concat (V @ [?a]) @ take (num_ops l') (de_ptr l') = map de_of (chunk_map s')"
      using es full by (simp add: l' True)
    moreover have "slot_ok l'" by (simp add: slot_ok_def l' True zero_area_def exceptions_per_area_256)
    moreover have "drop (num_ops l') (de_ptr l') = replicate (exceptions_per_area - num_ops l') zero_de"
      by (simp add: l' True zero_area_def)
    moreover have "num_ops l' = 0" by (simp add: l' True)
    ultimately show ?thesis
      unfolding rm_inv_def using kb' srt'
      by (intro exI[of _ "V @ [?a]"]) (simp add: cm l' (* metadata_found *))
  next
    case False
    have "vec s' = V" by (simp add: s' False V)
    moreover have "slot_ok l'" using so False by (simp add: slot_ok_def l')
    moreover have "num_ops l' \<noteq> 0" by (simp add: l' False)
    moreover have "concat V @ take (num_ops l') (de_ptr l') = map de_of (chunk_map s')"
      using es by (simp add: l' False)
    moreover have "drop (num_ops l') (de_ptr l') = replicate (exceptions_per_area - num_ops l') zero_de"
      using dr' by (simp add: l' False)
    ultimately show ?thesis
      unfolding rm_inv_def using kb' srt' len
      by (intro exI[of _ V]) (simp add: cm l')
  qed
qed

lemma rm_copy_inv_init: "chunk_map s = [] \<Longrightarrow> rm_copy_inv rm_init s"
  by (simp add: rm_copy_inv_def copy_isolated_def)

lemma rm_step_locals:
  assumes "rm_inv False l s" "ReadMetadata_op cow_op d l s = Inr (l', s')"
  shows "next_free l' = GetNextAllocatableChunkId (rm_nf cow_op l)"
    and "prev_copy_op l' = (type cow_op = kCowCopyOp)"
proof -
  from assms(1) have "keys_below l s" "slot_ok l" by (auto simp: rm_inv_def)
  from ReadMetadata_op_eq[OF this, of cow_op d] assms(2)
  show "next_free l' = GetNextAllocatableChunkId (rm_nf cow_op l)"
    and "prev_copy_op l' = (type cow_op = kCowCopyOp)" by auto
qed

lemma rm_copy_inv_step:
  assumes inv: "rm_inv False l s" and ci: "rm_copy_inv l s"
    and step: "ReadMetadata_op cow_op d l s = Inr (l', s')"
  shows "rm_copy_inv l' s'"
proof -
  let ?nf = "rm_nf cow_op l"
  have cm: "chunk_map s' = chunk_map s @ [(?nf, cow_op)]" by (rule rm_inv_step(2)[OF inv step])
  have nf': "next_free l' = GetNextAllocatableChunkId ?nf"
    and pc': "prev_copy_op l' = (type cow_op = kCowCopyOp)"
    by (rule rm_step_locals[OF inv step])+
  have kb: "\<forall>k\<in>fst ` set (chunk_map s). k < next_free l"
    using inv by (simp add: rm_inv_def keys_below_def)
  have iso: "copy_isolated (chunk_map s)" 
    and far: "\<not> prev_copy_op l \<Longrightarrow> \<forall>e\<in>set (chunk_map s). type (snd e) = kCowCopyOp \<longrightarrow> Suc (fst e) < next_free l"
    using ci by (auto simp: rm_copy_inv_def)
  have ge: "next_free l \<le> ?nf" by (rule rm_nf_ge)
  have gt: "type cow_op = kCowCopyOp \<or> prev_copy_op l \<Longrightarrow> next_free l < ?nf" by (rule rm_nf_gt)
  have old_ok: "Suc (fst e) \<noteq> ?nf" if "e \<in> set (chunk_map s)" "type (snd e) = kCowCopyOp" for e
  proof (cases "prev_copy_op l")
    case True
    then have "next_free l < ?nf" using gt by simp
    moreover have "fst e < next_free l" using kb that(1) by auto
    ultimately show ?thesis by simp
  next
    case False
    then have "Suc (fst e) < next_free l" using far that by auto
    then show ?thesis using ge by simp
  qed
  have new_ok: "Suc ?nf \<notin> fst ` set (chunk_map s) \<and> (\<forall>j. Suc j = ?nf \<longrightarrow> j \<notin> fst ` set (chunk_map s))"
    if "type cow_op = kCowCopyOp"
  proof -
    have "next_free l < ?nf" using gt that by simp
    then show ?thesis using kb by fastforce
  qed
  have iso': "copy_isolated (chunk_map s')"
    unfolding copy_isolated_def cm
  proof (intro ballI impI)
    fix e assume e: "e \<in> set (chunk_map s @ [(?nf, cow_op)])" and cp: "type (snd e) = kCowCopyOp"
    show "Suc (fst e) \<notin> fst ` set (chunk_map s @ [(?nf, cow_op)]) \<and>
          (\<forall>j. Suc j = fst e \<longrightarrow> j \<notin> fst ` set (chunk_map s @ [(?nf, cow_op)]))"
    proof (cases "e \<in> set (chunk_map s)")
      case True
      have a: "Suc (fst e) \<notin> fst ` set (chunk_map s)" "\<forall>j. Suc j = fst e \<longrightarrow> j \<notin> fst ` set (chunk_map s)"
        using iso True cp by (auto simp: copy_isolated_def)
      have b: "Suc (fst e) \<noteq> ?nf" using old_ok True cp by simp
      have c: "fst e < ?nf" using kb True ge by fastforce
      show ?thesis using a b c by auto
    next
      case False
      then have e': "e = (?nf, cow_op)" using e by simp
      then show ?thesis using new_ok cp by auto
    qed
  qed
  have far': "\<forall>e\<in>set (chunk_map s'). type (snd e) = kCowCopyOp \<longrightarrow> Suc (fst e) < next_free l'"
    if "\<not> prev_copy_op l'"
  proof (intro ballI impI)
    fix e assume e: "e \<in> set (chunk_map s')" and cp: "type (snd e) = kCowCopyOp"
    from that pc' have nc: "type cow_op \<noteq> kCowCopyOp" by simp
    with e cp cm have mem: "e \<in> set (chunk_map s)" by auto
    have "Suc (fst e) \<noteq> ?nf" using old_ok mem cp by simp
    moreover have "fst e < ?nf" using kb mem ge by fastforce
    ultimately have "Suc (fst e) < ?nf" by simp
    then show "Suc (fst e) < next_free l'" using GetNext_gt[of ?nf] nf' by simp
  qed
  show ?thesis unfolding rm_copy_inv_def using iso' far' by blast
qed

lemma rm_loop_inv:
  "rm_inv False l s \<Longrightarrow> rm_copy_inv l s \<Longrightarrow> ReadMetadata_loop riter l s = Inr (True, l', s') \<Longrightarrow>
     rm_inv (riter \<noteq> [] \<and> mergeable (last riter) \<and> num_ops l' = 0) l' s' \<and>
     rm_copy_inv l' s' \<and>
     map snd (chunk_map s') = map snd (chunk_map s) @ filter mergeable riter"
proof (induction riter arbitrary: l s)
  case Nil
  then show ?case by simp
next
  case (Cons cow_op riter)
  show ?case
  proof (cases "type cow_op = kCowFooterOp \<or> type cow_op = kCowLabelOp")
    case True
    then have nm: "\<not> mergeable cow_op" by (auto simp: mergeable_def)
    from True Cons.prems(3) have run: "ReadMetadata_loop riter l s = Inr (True, l', s')" by simp
    from Cons.IH[OF Cons.prems(1,2) run] nm show ?thesis
      by (cases "riter = []") (auto simp: rm_inv_def)
  next
    case False
    with Cons.prems(3) have m: "mergeable cow_op"
      by (auto simp: mergeable_def split: if_splits)
    from False m Cons.prems(3) obtain l1 s1 where
      step: "ReadMetadata_op cow_op (riter = []) l s = Inr (l1, s1)"
      and run: "ReadMetadata_loop riter l1 s1 = Inr (True, l', s')"
      by (auto simp: mergeable_def split: sum.splits)
    note i1 = rm_inv_step[OF Cons.prems(1) step]
    note c1 = rm_copy_inv_step[OF Cons.prems(1,2) step]
    show ?thesis
    proof (cases "riter = []")
      case True
      with run have "l' = l1" "s' = s1" by simp_all
      then show ?thesis using i1 c1 True m by simp
    next
      case False
      with i1(1) have "rm_inv False l1 s1" by simp
      from Cons.IH[OF this c1 run] show ?thesis using False m i1(2) by simp
    qed
  qed
qed

lemma length_concat_uniform:
  "\<forall>a\<in>set V. length a = m \<Longrightarrow> length (concat V) = m * length V"
  by (induction V) auto

lemma nth_concat_uniform:
  "\<forall>a\<in>set V. length a = m \<Longrightarrow> k < length V \<Longrightarrow> take m (drop (m * k) (concat V)) = V ! k"
proof (induction V arbitrary: k)
  case Nil
  then show ?case by simp
next
  case (Cons a V)
  show ?case
  proof (cases k)
    case 0
    then show ?thesis using Cons.prems by simp
  next
    case (Suc j)
    have la: "length a = m" using Cons.prems by simp
    have "drop (m * k) (concat (a # V)) = drop (m * j) (concat V)"
      using la Suc by simp
    then show ?thesis using Cons.IH[of j] Cons.prems Suc by simp
  qed
qed

lemma rm_loop_known:
  "ReadMetadata_loop riter l s = Inr (True, l', s') \<Longrightarrow>
     \<forall>c\<in>set riter. mergeable c \<or> type c = kCowFooterOp \<or> type c = kCowLabelOp"
proof (induction riter arbitrary: l s)
  case Nil
  then show ?case by simp
next
  case (Cons c riter)
  then show ?case
    by (auto simp: mergeable_def split: if_splits sum.splits)
qed

lemma rm_loop_total:
  "rm_inv False l s \<Longrightarrow> \<forall>c\<in>set riter. mergeable c \<or> type c = kCowFooterOp \<or> type c = kCowLabelOp \<Longrightarrow>
     \<exists>l' s'. ReadMetadata_loop riter l s = Inr (True, l', s')"
proof (induction riter arbitrary: l s)
  case Nil
  then show ?case by simp
next
  case (Cons c riter)
  show ?case
  proof (cases "type c = kCowFooterOp \<or> type c = kCowLabelOp")
    case True
    then show ?thesis using Cons by simp
  next
    case False
    with Cons.prems(2) have m: "mergeable c" by simp
    have kb: "keys_below l s" and so: "slot_ok l" using Cons.prems(1) by (auto simp: rm_inv_def)
    from ReadMetadata_op_eq[OF kb so, of c "riter = []"]
    obtain l1 s1 where step: "ReadMetadata_op c (riter = []) l s = Inr (l1, s1)" by blast
    show ?thesis
    proof (cases "riter = []")
      case True
      then show ?thesis using False m step by (simp add: mergeable_def)
    next
      case nonempty: False
      with rm_inv_step(1)[OF Cons.prems(1) step] have "rm_inv False l1 s1" by simp
      from Cons.IH[OF this] Cons.prems(2) obtain l' s' where
        "ReadMetadata_loop riter l1 s1 = Inr (True, l', s')" by auto
      then show ?thesis using False m step by (simp add: mergeable_def)
    qed
  qed
qed

text \<open>What a successful run of \<^verbatim>\<open>ReadMetadata\<close> on a new daemon leaves.\<close>

lemma ReadMetadata_TrueD:
  assumes "ReadMetadata s0 = Inr (True, st)"
  shows "\<exists>l s1. ReadMetadata_loop (rev (cow_ops (cow s0))) rm_init s0 = Inr (True, l, s1) \<and>
           st = (if num_ops l \<noteq> 0 \<or> \<not> metadata_found l
                 then s1\<lparr>vec := vec s1 @ [de_ptr l]\<rparr> else s1)
                \<lparr>cowop_iter := cow_ops (cow s0), num_sectors := ChunkToSector (next_free l),
                 metadata_read_done := True\<rparr>"
proof -
  from assms obtain hdr where "cow_header (cow s0) = Some hdr" "block_size hdr = BLOCK_SIZE" "cow_parse_ok (cow s0)"
    by (auto simp: ReadMetadata_def CHECK_def split: if_splits option.splits)
  with assms obtain l s1 where
    loop: "ReadMetadata_loop (rev (cow_ops (cow s0))) rm_init s0 = Inr (True, l, s1)"
    by (auto simp: ReadMetadata_def CHECK_def split: if_splits sum.splits)
  with assms \<open>cow_header (cow s0) = Some hdr\<close> \<open>block_size hdr = BLOCK_SIZE\<close> \<open>cow_parse_ok (cow s0)\<close>
  have "st = (if num_ops l \<noteq> 0 \<or> \<not> metadata_found l
                 then s1\<lparr>vec := vec s1 @ [de_ptr l]\<rparr> else s1)
                \<lparr>cowop_iter := cow_ops (cow s0), num_sectors := ChunkToSector (next_free l),
                 metadata_read_done := True\<rparr>"
    by (simp add: ReadMetadata_def CHECK_def Let_def)
  with loop show ?thesis by blast
qed

lemma ReadMetadata_result:
  assumes fresh: "vec s0 = []" "chunk_map s0 = []"
    and run: "ReadMetadata s0 = Inr (True, st)"
  shows "\<exists>l V. rm_inv False l (st\<lparr>vec := V\<rparr>) \<and> rm_copy_inv l st \<and>
           map snd (chunk_map st) = filter mergeable (rev (cow_ops (cow s0))) \<and>
           vec st = V @ (if cow_ops (cow s0) \<noteq> [] \<and> mergeable (hd (cow_ops (cow s0))) \<and> num_ops l = 0
                          then [zero_area] else [])
                      @ (if num_ops l \<noteq> 0 \<or> chunk_map st = [] then [de_ptr l] else [])"
proof -
  let ?riter = "rev (cow_ops (cow s0))"
  from ReadMetadata_TrueD[OF run] obtain l s1 where
    loop: "ReadMetadata_loop ?riter rm_init s0 = Inr (True, l, s1)"
    and st: "st = (if num_ops l \<noteq> 0 \<or> \<not> metadata_found l
                 then s1\<lparr>vec := vec s1 @ [de_ptr l]\<rparr> else s1)
                \<lparr>cowop_iter := cow_ops (cow s0), num_sectors := ChunkToSector (next_free l),
                 metadata_read_done := True\<rparr>" by blast
  let ?x = "?riter \<noteq> [] \<and> mergeable (last ?riter) \<and> num_ops l = 0"
  from rm_loop_inv[OF rm_inv_init[OF fresh] rm_copy_inv_init[OF fresh(2)] loop]
  have inv: "rm_inv ?x l s1" and ci: "rm_copy_inv l s1"
    and sn: "map snd (chunk_map s1) = filter mergeable ?riter"
    using fresh by simp_all
  have x: "?x = (cow_ops (cow s0) \<noteq> [] \<and> mergeable (hd (cow_ops (cow s0))) \<and> num_ops l = 0)"
    by (auto simp: last_rev)
  from inv obtain V where V: "vec s1 = V @ (if ?x then [zero_area] else [])"
    and rest: "keys_below l s1" "slot_ok l" "sorted_wrt (<) (map fst (chunk_map s1))"
      "\<forall>a\<in>set V. length a = exceptions_per_area"
      "concat V @ take (num_ops l) (de_ptr l) = map de_of (chunk_map s1)"
      "drop (num_ops l) (de_ptr l) = replicate (exceptions_per_area - num_ops l) zero_de"
      "metadata_found l = (chunk_map s1 \<noteq> [])"
    unfolding rm_inv_def by blast
  have cm: "chunk_map st = chunk_map s1" by (simp add: st)
  have "rm_inv False l (st\<lparr>vec := V\<rparr>)"
    unfolding rm_inv_def using rest by (intro exI[of _ V]) (simp add: st keys_below_def)
  moreover have "rm_copy_inv l st" using ci by (simp add: rm_copy_inv_def st)
  moreover have "map snd (chunk_map st) = filter mergeable ?riter" using sn cm by simp
  moreover have "vec st = V @ (if cow_ops (cow s0) \<noteq> [] \<and> mergeable (hd (cow_ops (cow s0))) \<and> num_ops l = 0
                          then [zero_area] else [])
                      @ (if num_ops l \<noteq> 0 \<or> chunk_map st = [] then [de_ptr l] else [])"
    using V x rest(7) by (auto simp: st)
  ultimately show ?thesis by blast
qed

subsection \<open>The example logs\<close>

lemma rm_init_eq:
  "rm_init = \<lparr>next_free = 2, prev_copy_op = False, metadata_found = False,
              de_ptr = zero_area, offset = 0, num_ops = 0\<rparr>"
  by (simp add: rm_init_def NUM_SNAPSHOT_HDR_CHUNKS_def)

lemmas rm_eval =
  ReadMetadata_def CHECK_def rm_init_eq ReadMetadata_op_def area_write_def zero_area_def
  GetNextAllocatableChunkId_def IsChunkIdMetadata_def ChunkToSector_def Let_def

lemma run_E2:
  "ReadMetadata (example_init log_E2 reads) = Inr (True, built_E2 log_E2 (example_init log_E2 reads))"
  by (simp add: rm_eval example_defs log_E2_def built_E2_def area_E2_def const_defs)

lemma run_labelled:
  "ReadMetadata (example_init log_labelled reads) =
     Inr (True, built_E2 log_labelled (example_init log_labelled reads))"
  by (simp add: rm_eval example_defs log_labelled_def built_E2_def area_E2_def const_defs)

lemma run_copies:
  "ReadMetadata (example_init log_copies reads) = Inr (True, built_copies (example_init log_copies reads))"
  by (simp add: rm_eval example_defs log_copies_def built_copies_def const_defs)

subsection \<open>Claims about the metadata build\<close>

text \<open>
  Claim C3. For every COW log the metadata build accepts (from a newly constructed daemon,
  \<^verbatim>\<open>ReadMetadata\<close> returns true), no two keys \<open>a < b\<close> of the chunk map that both map to Copy
  operations satisfy \<open>b = a + 1\<close>; more, of two keys \<open>a\<close> and \<open>a + 1\<close> of the map neither maps
  to a Copy operation, so a Copy is never assigned an id contiguous with the id of the
  operation before or after it.
\<close>

theorem chunk_map_no_contiguous_copies:
  assumes "vec s0 = []" and "chunk_map s0 = []" and "ReadMetadata s0 = Inr (True, st)"
  shows "(\<forall>a b opa opb. map_of (chunk_map st) a = Some opa \<and> map_of (chunk_map st) b = Some opb \<and>
             a < b \<and> type opa = kCowCopyOp \<and> type opb = kCowCopyOp \<longrightarrow> b \<noteq> a + 1) \<and>
         (\<forall>a opa opb. map_of (chunk_map st) a = Some opa \<and> map_of (chunk_map st) (a + 1) = Some opb \<longrightarrow>
             type opa \<noteq> kCowCopyOp \<and> type opb \<noteq> kCowCopyOp)"
proof -
  from ReadMetadata_result[OF assms] have iso: "copy_isolated (chunk_map st)"
    by (auto simp: rm_copy_inv_def)
  have adj: "type opa \<noteq> kCowCopyOp \<and> type opb \<noteq> kCowCopyOp"
    if a: "map_of (chunk_map st) a = Some opa" and b: "map_of (chunk_map st) (Suc a) = Some opb"
    for a opa opb
  proof -
    have ma: "(a, opa) \<in> set (chunk_map st)" and mb: "(Suc a, opb) \<in> set (chunk_map st)"
      using a b by (auto dest: map_of_SomeD)
    have "type opa \<noteq> kCowCopyOp"
    proof
      assume "type opa = kCowCopyOp"
      with bspec[OF iso[unfolded copy_isolated_def] ma]
      have "Suc a \<notin> fst ` set (chunk_map st)" by simp
      with mb show False by force
    qed
    moreover have "type opb \<noteq> kCowCopyOp"
    proof
      assume "type opb = kCowCopyOp"
      with bspec[OF iso[unfolded copy_isolated_def] mb]
      have "a \<notin> fst ` set (chunk_map st)" by simp
      with ma show False by force
    qed
    ultimately show ?thesis by simp
  qed
  show ?thesis using adj by auto
qed

text \<open>
  Claim C5. After an accepted build the entries of the chunk map, in ascending order of
  their chunk ids, are the operations of the log in the reverse of the forward order, the
  Label and Footer operations left out; and the exceptions in the areas, read area after
  area, are those of these entries in the same order.
\<close>

theorem chunk_map_reverse_order:
  assumes "vec s0 = []" and "chunk_map s0 = []" and "ReadMetadata s0 = Inr (True, st)"
  shows "sorted_wrt (<) (map fst (chunk_map st)) \<and>
         map snd (chunk_map st) = rev (filter not_label_footer (cow_ops (cow s0))) \<and>
         take (length (chunk_map st)) (concat (vec st)) = map de_of (chunk_map st)"
proof -
  from ReadMetadata_result[OF assms] obtain l V where
    inv: "rm_inv False l (st\<lparr>vec := V\<rparr>)"
    and sn: "map snd (chunk_map st) = filter mergeable (rev (cow_ops (cow s0)))"
    and v: "vec st = V @ (if cow_ops (cow s0) \<noteq> [] \<and> mergeable (hd (cow_ops (cow s0))) \<and> num_ops l = 0
                          then [zero_area] else [])
                      @ (if num_ops l \<noteq> 0 \<or> chunk_map st = [] then [de_ptr l] else [])"
    by blast
  from inv have srt: "sorted_wrt (<) (map fst (chunk_map st))"
    and cc: "concat V @ take (num_ops l) (de_ptr l) = map de_of (chunk_map st)"
    by (auto simp: rm_inv_def)
  from ReadMetadata_TrueD[OF assms(3)] rm_loop_known
  have known: "\<forall>c\<in>set (rev (cow_ops (cow s0))). mergeable c \<or> type c = kCowFooterOp \<or> type c = kCowLabelOp"
    by blast
  have "filter mergeable (rev (cow_ops (cow s0))) = filter not_label_footer (rev (cow_ops (cow s0)))"
    using known by (intro filter_cong) (auto simp: mergeable_def not_label_footer_def)
  with sn have ops: "map snd (chunk_map st) = rev (filter not_label_footer (cow_ops (cow s0)))"
    by (simp add: rev_filter)
  have len: "length (chunk_map st) = length (concat V) + min (length (de_ptr l)) (num_ops l)"
    using arg_cong[OF cc, of length] by simp
  have "take (length (chunk_map st)) (concat (vec st)) = concat V @ take (num_ops l) (de_ptr l)"
    unfolding v len by (auto simp: min_def)
  with cc srt ops show ?thesis by simp
qed

text \<open>
  The areas after an accepted build of a log with \<open>n\<close> Replace, Zero and Copy operations:
  their number, and the content of each.
\<close>

lemma ReadMetadata_layout:
  assumes "vec s0 = []" and "chunk_map s0 = []" and "ReadMetadata s0 = Inr (True, st)"
  shows "length (chunk_map st) = length (filter mergeable (cow_ops (cow s0))) \<and>
         length (vec st) =
           (let n = length (filter mergeable (cow_ops (cow s0)))
            in if n = 0 then 1
               else (n + 255) div 256 +
                    (if n mod 256 = 0 \<and> (case cow_ops (cow s0) of [] \<Rightarrow> False | c # _ \<Rightarrow> mergeable c)
                     then 1 else 0)) \<and>
         (\<forall>k<length (vec st).
            vec st ! k = pad_area (take 256 (drop (256 * k) (map de_of (chunk_map st)))))"
proof -
  let ?ops = "cow_ops (cow s0)"
  let ?es = "map de_of (chunk_map st)"
  from ReadMetadata_result[OF assms] obtain l V where
    inv: "rm_inv False l (st\<lparr>vec := V\<rparr>)"
    and sn: "map snd (chunk_map st) = filter mergeable (rev ?ops)"
    and v: "vec st = V @ (if ?ops \<noteq> [] \<and> mergeable (hd ?ops) \<and> num_ops l = 0
                          then [zero_area] else [])
                      @ (if num_ops l \<noteq> 0 \<or> chunk_map st = [] then [de_ptr l] else [])"
    by blast
  from inv have so: "slot_ok l"
    and uni: "\<forall>a\<in>set V. length a = 256"
    and cc: "concat V @ take (num_ops l) (de_ptr l) = ?es"
    and dr: "drop (num_ops l) (de_ptr l) = replicate (256 - num_ops l) zero_de"
    by (auto simp: rm_inv_def exceptions_per_area_256)
  from so have nlt: "num_ops l < 256" and la: "length (de_ptr l) = 256"
    by (simp_all add: slot_ok_def exceptions_per_area_256)
  have lcv: "length (concat V) = 256 * length V" by (rule length_concat_uniform[OF uni])
  have n1: "length (chunk_map st) = length (filter mergeable ?ops)"
    using arg_cong[OF sn, of length] by (simp add: rev_filter[symmetric])
  have n2: "length (chunk_map st) = 256 * length V + num_ops l"
    using arg_cong[OF cc, of length] lcv nlt la by simp
  have hd_eq: "(case ?ops of [] \<Rightarrow> False | c # _ \<Rightarrow> mergeable c) = (?ops \<noteq> [] \<and> mergeable (hd ?ops))"
    by (cases ?ops) simp_all
  have nonempty: "?ops \<noteq> [] \<and> mergeable (hd ?ops) \<longrightarrow> chunk_map st \<noteq> []"
  proof
    assume h: "?ops \<noteq> [] \<and> mergeable (hd ?ops)"
    then have "hd ?ops \<in> set (rev ?ops)" by simp
    with h have "filter mergeable (rev ?ops) \<noteq> []" by (auto simp: filter_empty_conv)
    with sn show "chunk_map st \<noteq> []" by auto
  qed
  have len: "length (vec st) =
           (let n = length (filter mergeable ?ops)
            in if n = 0 then 1
               else (n + 255) div 256 +
                    (if n mod 256 = 0 \<and> (case ?ops of [] \<Rightarrow> False | c # _ \<Rightarrow> mergeable c)
                     then 1 else 0))"
    unfolding hd_eq n1[symmetric] Let_def using n2 nlt nonempty by (auto simp: v)
  have area: "vec st ! k = pad_area (take 256 (drop (256 * k) ?es))" if k: "k < length (vec st)" for k
  proof (cases "k < length V")
    case True
    have a: "take 256 (drop (256 * k) (concat V)) = V ! k" by (rule nth_concat_uniform[OF uni True])
    have "256 * k + 256 \<le> length (concat V)" using True lcv by simp
    then have "take 256 (drop (256 * k) ?es) = take 256 (drop (256 * k) (concat V))"
      unfolding cc[symmetric] by simp
    moreover have "length (V ! k) = 256" using uni True by simp
    ultimately show ?thesis using a True
      by (simp add: v nth_append pad_area_def exceptions_per_area_256)
  next
    case False
    then have keq: "k = length V" using k nonempty by (auto simp: v split: if_splits)
    have d: "drop (256 * k) ?es = take (num_ops l) (de_ptr l)"
      unfolding cc[symmetric] keq using lcv by simp
    have ltk: "length (take (num_ops l) (de_ptr l)) = num_ops l" using nlt la by simp
    have t: "take 256 (take (num_ops l) (de_ptr l)) = take (num_ops l) (de_ptr l)"
      using nlt by simp
    have p: "pad_area (take (num_ops l) (de_ptr l)) = de_ptr l"
      unfolding pad_area_def ltk exceptions_per_area_256 dr[symmetric] by simp
    show ?thesis
    proof (cases "num_ops l \<noteq> 0 \<or> chunk_map st = []")
      case True
      then have "vec st ! k = de_ptr l" using keq n2 nonempty by (auto simp: v nth_append)
      then show ?thesis using d t p by simp
    next
      case False
      then have z: "num_ops l = 0" by simp
      with False k keq nonempty have "vec st ! k = zero_area" by (auto simp: v nth_append split: if_splits)
      then show ?thesis using d z by (simp add: pad_area_def zero_area_def)
    qed
  qed
  show ?thesis using n1 len area by blast
qed


text \<open>
  The hypotheses of C3 at \<open>log_copies\<close>: the two Copy operations sit at chunks 3 and 5, the
  two Zero operations at the contiguous chunks 7 and 8.
\<close>

theorem chunk_map_no_contiguous_copies_witness:
  "vec (example_init log_copies []) = [] \<and> chunk_map (example_init log_copies []) = [] \<and>
   ReadMetadata (example_init log_copies []) = Inr (True, built_copies (example_init log_copies [])) \<and>
   map_of (chunk_map (built_copies (example_init log_copies []))) 3 = Some (copy_op 21 31) \<and>
   map_of (chunk_map (built_copies (example_init log_copies []))) 5 = Some (copy_op 20 30) \<and>
   type (copy_op 21 31) = kCowCopyOp \<and> type (copy_op 20 30) = kCowCopyOp \<and>
   (3::nat) < 5 \<and> (5::nat) \<noteq> 3 + 1 \<and>
   map_of (chunk_map (built_copies (example_init log_copies []))) 7 = Some (zero_op 2) \<and>
   map_of (chunk_map (built_copies (example_init log_copies []))) (7 + 1) = Some (zero_op 1) \<and>
   type (zero_op 2) \<noteq> kCowCopyOp \<and> type (zero_op 1) \<noteq> kCowCopyOp"
proof -
  let ?s0 = "example_init log_copies []"
  let ?st = "built_copies ?s0"
  have f1: "vec ?s0 = []" and f2: "chunk_map ?s0 = []" by (simp_all add: example_defs)
  have run: "ReadMetadata ?s0 = Inr (True, ?st)" by (rule run_copies)
  have m3: "map_of (chunk_map ?st) 3 = Some (copy_op 21 31)"
    and m5: "map_of (chunk_map ?st) 5 = Some (copy_op 20 30)"
    and m7: "map_of (chunk_map ?st) 7 = Some (zero_op 2)"
    and m8: "map_of (chunk_map ?st) (7 + 1) = Some (zero_op 1)"
    by (simp_all add: built_copies_def)
  have t: "type (copy_op 21 31) = kCowCopyOp" "type (copy_op 20 30) = kCowCopyOp"
    by (simp_all add: copy_op_def)
  have lt: "(3::nat) < 5" by simp
  note main = chunk_map_no_contiguous_copies[OF f1 f2 run]
  have a: "(5::nat) \<noteq> 3 + 1"
    by (rule conjunct1[OF main, rule_format, of 3 "copy_op 21 31" 5 "copy_op 20 30"])
       (intro conjI m3 m5 lt t)
  have b: "type (zero_op 2) \<noteq> kCowCopyOp \<and> type (zero_op 1) \<noteq> kCowCopyOp"
    by (rule conjunct2[OF main, rule_format, of 7 "zero_op 2" "zero_op 1"]) (intro conjI m7 m8)
  show ?thesis by (intro conjI f1 f2 run m3 m5 m7 m8 t lt a b[THEN conjunct1] b[THEN conjunct2])
qed


text \<open>The hypotheses of C5 at \<open>log_labelled\<close>: the Copy, then the Replace.\<close>

theorem chunk_map_reverse_order_witness:
  "vec (example_init log_labelled []) = [] \<and> chunk_map (example_init log_labelled []) = [] \<and>
   ReadMetadata (example_init log_labelled []) =
     Inr (True, built_E2 log_labelled (example_init log_labelled [])) \<and>
   map snd (chunk_map (built_E2 log_labelled (example_init log_labelled []))) =
     [copy_op 20 30, replace_op 10] \<and>
   (sorted_wrt (<) (map fst (chunk_map (built_E2 log_labelled (example_init log_labelled [])))) \<and>
    map snd (chunk_map (built_E2 log_labelled (example_init log_labelled []))) =
      rev (filter not_label_footer (cow_ops (cow (example_init log_labelled [])))) \<and>
    take (length (chunk_map (built_E2 log_labelled (example_init log_labelled []))))
      (concat (vec (built_E2 log_labelled (example_init log_labelled [])))) =
      map de_of (chunk_map (built_E2 log_labelled (example_init log_labelled []))))"
proof -
  let ?s0 = "example_init log_labelled []"
  let ?st = "built_E2 log_labelled ?s0"
  have f1: "vec ?s0 = []" and f2: "chunk_map ?s0 = []" by (simp_all add: example_defs)
  have run: "ReadMetadata ?s0 = Inr (True, ?st)" by (rule run_labelled)
  have v: "map snd (chunk_map ?st) = [copy_op 20 30, replace_op 10]"
    by (simp add: built_E2_def)
  note main = chunk_map_reverse_order[OF f1 f2 run]
  show ?thesis by (intro conjI f1 f2 run v main)
qed

lemma ReadMetadata_succeeds:
  assumes "cow_parse_ok (cow s)" and "cow_header (cow s) = Some h" and "block_size h = BLOCK_SIZE"
    and "vec s = []" and "chunk_map s = []"
    and "\<forall>c\<in>set (cow_ops (cow s)). mergeable c \<or> type c = kCowFooterOp \<or> type c = kCowLabelOp"
  shows "\<exists>st. ReadMetadata s = Inr (True, st)"
proof -
  from rm_loop_total[OF rm_inv_init[OF assms(4,5)], of "rev (cow_ops (cow s))"] assms(6)
  obtain l s1 where "ReadMetadata_loop (rev (cow_ops (cow s))) rm_init s = Inr (True, l, s1)"
    by auto
  then show ?thesis using assms(1-3) by (simp add: ReadMetadata_def CHECK_def Let_def)
qed

text \<open>
  Claim C6, amended. After an accepted build of a log with \<open>n\<close> Replace, Zero and Copy
  operations the vector holds one zero-filled area when \<open>n = 0\<close>, and otherwise
  \<open>ceil(n / 256)\<close> areas, and one more, zero-filled, when \<open>n\<close> is a multiple of 256 and the
  first operation of the log in forward order is one of these (the reverse iterator is
  done at the moment the last area becomes full). The \<open>k\<close>-th area holds the \<open>k\<close>-th batch
  of up to 256 exceptions, zero entries after them.
\<close>

theorem ReadMetadata_area_count:
  assumes "vec s0 = []" and "chunk_map s0 = []" and "ReadMetadata s0 = Inr (True, st)"
  shows "length (chunk_map st) = length (filter mergeable (cow_ops (cow s0))) \<and>
         length (vec st) =
           (let n = length (filter mergeable (cow_ops (cow s0)))
            in if n = 0 then 1
               else (n + 255) div 256 +
                    (if n mod 256 = 0 \<and> (case cow_ops (cow s0) of [] \<Rightarrow> False | c # _ \<Rightarrow> mergeable c)
                     then 1 else 0)) \<and>
         (\<forall>k<length (vec st).
            vec st ! k = pad_area (take 256 (drop (256 * k) (map de_of (chunk_map st)))))"
  using assms by (rule ReadMetadata_layout)

text \<open>The hypotheses of C6 at \<open>log_E2\<close>: two exceptions, one area.\<close>

theorem ReadMetadata_area_count_witness:
  "vec (example_init log_E2 []) = [] \<and> chunk_map (example_init log_E2 []) = [] \<and>
   ReadMetadata (example_init log_E2 []) = Inr (True, built_E2 log_E2 (example_init log_E2 [])) \<and>
   length (filter mergeable (cow_ops (cow (example_init log_E2 [])))) = 2 \<and>
   length (chunk_map (built_E2 log_E2 (example_init log_E2 []))) = 2 \<and>
   length (vec (built_E2 log_E2 (example_init log_E2 []))) = 1 \<and>
   vec (built_E2 log_E2 (example_init log_E2 [])) ! 0 =
     pad_area (take 256 (drop (256 * 0)
       (map de_of (chunk_map (built_E2 log_E2 (example_init log_E2 []))))))"
proof -
  let ?s0 = "example_init log_E2 []"
  let ?st = "built_E2 log_E2 ?s0"
  have f1: "vec ?s0 = []" and f2: "chunk_map ?s0 = []" by (simp_all add: example_defs)
  have run: "ReadMetadata ?s0 = Inr (True, ?st)" by (rule run_E2)
  have n: "length (filter mergeable (cow_ops (cow ?s0))) = 2"
    by (simp add: example_defs log_E2_def mergeable_def)
  note main = ReadMetadata_area_count[OF f1 f2 run]
  have c: "length (chunk_map ?st) = 2" using main n by simp
  have v: "length (vec ?st) = 1" using main n by (simp add: Let_def)
  have a: "vec ?st ! 0 = pad_area (take 256 (drop (256 * 0) (map de_of (chunk_map ?st))))"
    by (rule main[THEN conjunct2, THEN conjunct2, rule_format]) (simp add: v)
  show ?thesis by (intro conjI f1 f2 run n c v a)
qed

text \<open>
  C6 as the spec states it fails at \<open>log_full\<close>: 256 Zero operations leave two areas, not
  \<open>ceil(256 / 256) = 1\<close>.
\<close>

theorem ReadMetadata_area_count_counterexample:
  "(case ReadMetadata (example_init log_full []) of
      Inl e \<Rightarrow> False
    | Inr (ok, st) \<Rightarrow>
        ok \<and> length (filter mergeable (cow_ops (cow (example_init log_full [])))) = 256 \<and>
        length (vec st) = 2 \<and> length (vec st) \<noteq> (256 + 255) div 256)"
proof -
  let ?s0 = "example_init log_full []"
  have f1: "vec ?s0 = []" and f2: "chunk_map ?s0 = []" by (simp_all add: example_defs)
  have ops: "cow_ops (cow ?s0) = log_full" by (simp add: example_defs)
  have all: "\<forall>c\<in>set log_full. mergeable c" by (auto simp: log_full_def mergeable_def zero_op_def)
  have n: "length (filter mergeable log_full) = 256"
    using all by (simp add: log_full_def)
  have hd: "log_full = zero_op 1 # map zero_op [Suc 1..<257]"
    by (simp add: log_full_def upt_conv_Cons del: upt_rec_numeral upt_Suc)
  have "\<exists>st. ReadMetadata ?s0 = Inr (True, st)"
    using all by (intro ReadMetadata_succeeds[where h="\<lparr>block_size = 4096, num_merge_ops = 0\<rparr>"])
                 (simp_all add: example_defs BLOCK_SIZE_def)
  then obtain st where run: "ReadMetadata ?s0 = Inr (True, st)" ..
  from ReadMetadata_layout[OF f1 f2 run] have "length (vec st) = 2"
    unfolding ops n by (simp add: hd mergeable_def zero_op_def)
  then show ?thesis using run n ops by simp
qed

subsection \<open>The example daemon\<close>

lemmas served_defs = served_def built_E2_def example_defs Initialize_def const_defs

lemma init_E2:
  "InitCowDevice (example_init log_E2 reads) = Inr (True, served log_E2 reads)"
  by (simp add: InitCowDevice_def rm_eval served_defs log_E2_def area_E2_def Let_def)

subsection \<open>The sink\<close>

text \<open>
  Claim C7 says that \<^verbatim>\<open>GetPayloadBuffer(n)\<close> is null exactly when
  \<open>n > PAYLOAD_SIZE - offset\<close>. The code compares \<open>n\<close> with the size of the whole buffer,
  header included: in the sink that \<^verbatim>\<open>InitCowDevice\<close> initialises, at offset 0, a request of
  \<open>PAYLOAD_SIZE + 1\<close> bytes gets the pointer to the start of the payload, which has only
  \<open>PAYLOAD_SIZE\<close> bytes.
\<close>

theorem GetPayloadBuffer_past_payload:
  "GetPayloadBuffer (Initialize (sizeof_dm_user_header + PAYLOAD_SIZE)) (PAYLOAD_SIZE + 1) = Some 0 \<and>
   buffer_offset (Initialize (sizeof_dm_user_header + PAYLOAD_SIZE)) = 0 \<and>
   length (payload (Initialize (sizeof_dm_user_header + PAYLOAD_SIZE))) = PAYLOAD_SIZE \<and>
   PAYLOAD_SIZE - buffer_offset (Initialize (sizeof_dm_user_header + PAYLOAD_SIZE)) < PAYLOAD_SIZE + 1"
  by (simp add: GetPayloadBuffer_def Initialize_def sizeof_dm_user_header_def PAYLOAD_SIZE_def)

text \<open>The bound the code tests: the bytes from the offset to the end of the whole buffer.\<close>

lemma GetPayloadBuffer_None_iff:
  assumes "buffer_offset b \<le> buffer_size b" and "buffer_size b < 2 ^ 64"
  shows "(GetPayloadBuffer b n = None) = (buffer_size b - buffer_offset b < n)"
proof -
  have "(buffer_size b + 2 ^ 64 - buffer_offset b) mod 2 ^ 64 = buffer_size b - buffer_offset b"
    using assms by (simp add: mod_if)
  then show ?thesis by (simp add: GetPayloadBuffer_def)
qed

subsection \<open>Metadata reads\<close>

lemma length_le_bytes: "length (le_bytes n v) = n"
  by (simp add: le_bytes_def)

lemma length_area_bytes: "length (area_bytes a) = sizeof_disk_exception * length a"
  by (induction a) (simp_all add: area_bytes_def de_bytes_def length_le_bytes sizeof_disk_exception_def)

lemma payload_store_again:
  "payload_store b off bs = Inr b' \<Longrightarrow> payload_store b' off bs = Inr b'"
  by (auto simp: payload_store_def split: if_splits)

lemma store_again: "store s off bs = Inr s' \<Longrightarrow> store s' off bs = Inr s'"
  by (auto simp: store_def payload_store_def split: if_splits sum.splits)

lemma store_frame:
  "store s off bs = Inr s' \<Longrightarrow>
     vec s' = vec s \<and> buffer_size (bufsink s') = buffer_size (bufsink s) \<and>
     buffer_offset (bufsink s') = buffer_offset (bufsink s)"
  by (auto simp: store_def payload_store_def split: if_splits sum.splits)

lemma store_eq:
  "off + length bs \<le> length (payload (bufsink s)) \<Longrightarrow>
   store s off bs = Inr (s\<lparr>bufsink := (bufsink s)\<lparr>payload :=
       take off (payload (bufsink s)) @ bs @ drop (off + length bs) (payload (bufsink s))\<rparr>\<rparr>)"
  by (simp add: store_def payload_store_def)

lemma serve_again:
  assumes g: "GetPayloadBuffer (bufsink s) n = Some buf" and st: "store s buf bs = Inr s'"
  shows "GetPayloadBuffer (bufsink s') n = Some buf" and "store s' buf bs = Inr s'"
    and "vec s' = vec s"
proof -
  from store_frame[OF st] have f: "vec s' = vec s"
    "buffer_size (bufsink s') = buffer_size (bufsink s)"
    "buffer_offset (bufsink s') = buffer_offset (bufsink s)" by simp_all
  show "vec s' = vec s" by (rule f(1))
  show "store s' buf bs = Inr s'" by (rule store_again[OF st])
  show "GetPayloadBuffer (bufsink s') n = Some buf"
    using g unfolding GetPayloadBuffer_def f(2,3) .
qed

lemma ZerofillDiskExceptions_again:
  assumes run: "ZerofillDiskExceptions s read_size = Inr (ok, s')"
  shows "ZerofillDiskExceptions s' read_size = Inr (ok, s') \<and> vec s' = vec s"
proof (cases "read_size > exceptions_per_area * sizeof_disk_exception")
  case True
  with run show ?thesis by (simp add: ZerofillDiskExceptions_def Let_def)
next
  case False
  let ?n = "exceptions_per_area * sizeof_disk_exception"
  from False run obtain buf where
    g: "GetPayloadBuffer (bufsink s) ?n = Some buf"
    and st: "store s buf (replicate ?n 0) = Inr s'" and ok: "ok"
    by (auto simp: ZerofillDiskExceptions_def Let_def split: option.splits sum.splits)
  from serve_again[OF g st] False ok show ?thesis
    by (simp add: ZerofillDiskExceptions_def Let_def)
qed

lemma ReadDiskExceptions_again:
  assumes run: "ReadDiskExceptions s chunk read_size = Inr (ok, s')"
  shows "ReadDiskExceptions s' chunk read_size = Inr (ok, s')"
proof (cases "chunk div (exceptions_per_area + 1) < length (vec s)")
  case False
  with run have z: "ZerofillDiskExceptions s read_size = Inr (ok, s')"
    by (simp add: ReadDiskExceptions_def Let_def)
  from ZerofillDiskExceptions_again[OF z] False show ?thesis
    by (simp add: ReadDiskExceptions_def Let_def)
next
  case True
  let ?n = "exceptions_per_area * sizeof_disk_exception"
  let ?a = "vec s ! (chunk div (exceptions_per_area + 1))"
  show ?thesis
  proof (cases "read_size > ?n")
    case big: True
    with True run show ?thesis by (simp add: ReadDiskExceptions_def Let_def)
  next
    case small: False
    from True small run obtain buf where
      g: "GetPayloadBuffer (bufsink s) ?n = Some buf"
      and len: "\<not> length (area_bytes ?a) < ?n"
      and st: "store s buf (take ?n (area_bytes ?a)) = Inr s'"
      and ok: "ok"
      by (auto simp: ReadDiskExceptions_def Let_def split: option.splits if_splits sum.splits)
    from serve_again[OF g st] True small len ok show ?thesis
      by (simp add: ReadDiskExceptions_def Let_def)
  qed
qed

text \<open>
  Claim C8. \<^verbatim>\<open>ReadDiskExceptions\<close> with a \<open>read_size\<close> above 4096 returns false and changes
  nothing. With a \<open>read_size\<close> of at most 4096 and room for a page at the payload pointer,
  an area index \<open>chunk / 257\<close> within range copies the 4096 bytes of that area to the
  pointer, and an index out of range puts 4096 zero bytes there. The same read issued again
  returns the same result and leaves the same bytes. Inside \<^verbatim>\<open>Run\<close>, a read frame of more
  than 4096 bytes for a chunk that is not in the chunk map is answered with the response
  type \<^verbatim>\<open>DM_USER_RESP_ERROR\<close>.
\<close>

theorem ReadDiskExceptions_serves_area:
  "(exceptions_per_area * sizeof_disk_exception < read_size \<longrightarrow>
      ReadDiskExceptions s chunk read_size = Inr (False, s)) \<and>
   (read_size \<le> 4096 \<and> chunk div 257 < length (vec s) \<and> length (vec s ! (chunk div 257)) = 256 \<and>
    GetPayloadBuffer (bufsink s) 4096 = Some buf \<and> buf + 4096 \<le> length (payload (bufsink s)) \<longrightarrow>
      length (area_bytes (vec s ! (chunk div 257))) = 4096 \<and>
      ReadDiskExceptions s chunk read_size =
        Inr (True, s\<lparr>bufsink := (bufsink s)\<lparr>payload :=
               take buf (payload (bufsink s)) @ area_bytes (vec s ! (chunk div 257)) @
               drop (buf + 4096) (payload (bufsink s))\<rparr>\<rparr>)) \<and>
   (read_size \<le> 4096 \<and> \<not> chunk div 257 < length (vec s) \<and>
    GetPayloadBuffer (bufsink s) 4096 = Some buf \<and> buf + 4096 \<le> length (payload (bufsink s)) \<longrightarrow>
      ReadDiskExceptions s chunk read_size =
        Inr (True, s\<lparr>bufsink := (bufsink s)\<lparr>payload :=
               take buf (payload (bufsink s)) @ replicate 4096 0 @
               drop (buf + 4096) (payload (bufsink s))\<rparr>\<rparr>)) \<and>
   (ReadDiskExceptions s chunk read_size = Inr (ok, s') \<longrightarrow>
      ReadDiskExceptions s' chunk read_size = Inr (ok, s')) \<and>
   (sector (header (bufsink s)) \<noteq> 0 \<and>
    map_of (chunk_map s) (SectorToChunk (sector (header (bufsink s)))) = None \<and>
    4096 < min PAYLOAD_SIZE remaining_size \<and> ctrl_write_ok s (length (ctrl_out s)) \<longrightarrow>
      Run_read_frame s remaining_size off =
        Inr (True, (set_type s DM_USER_RESP_ERROR)
               \<lparr>ctrl_out := ctrl_out s @
                  [((header (bufsink s))\<lparr>req_type := DM_USER_RESP_ERROR\<rparr>,
                    take (min PAYLOAD_SIZE remaining_size) (payload (bufsink s)))]\<rparr>))"
proof (intro conjI impI)
  assume "exceptions_per_area * sizeof_disk_exception < read_size"
  then show "ReadDiskExceptions s chunk read_size = Inr (False, s)"
    by (simp add: ReadDiskExceptions_def ZerofillDiskExceptions_def Let_def)
next
  assume h: "read_size \<le> 4096 \<and> chunk div 257 < length (vec s) \<and> length (vec s ! (chunk div 257)) = 256 \<and>
    GetPayloadBuffer (bufsink s) 4096 = Some buf \<and> buf + 4096 \<le> length (payload (bufsink s))"
  then show "length (area_bytes (vec s ! (chunk div 257))) = 4096"
    by (simp add: length_area_bytes sizeof_disk_exception_def)
  then show "ReadDiskExceptions s chunk read_size =
        Inr (True, s\<lparr>bufsink := (bufsink s)\<lparr>payload :=
               take buf (payload (bufsink s)) @ area_bytes (vec s ! (chunk div 257)) @
               drop (buf + 4096) (payload (bufsink s))\<rparr>\<rparr>)"
    using h by (simp add: ReadDiskExceptions_def Let_def const_defs store_eq)
next
  assume h: "read_size \<le> 4096 \<and> \<not> chunk div 257 < length (vec s) \<and>
    GetPayloadBuffer (bufsink s) 4096 = Some buf \<and> buf + 4096 \<le> length (payload (bufsink s))"
  then show "ReadDiskExceptions s chunk read_size =
        Inr (True, s\<lparr>bufsink := (bufsink s)\<lparr>payload :=
               take buf (payload (bufsink s)) @ replicate 4096 0 @
               drop (buf + 4096) (payload (bufsink s))\<rparr>\<rparr>)"
    by (simp add: ReadDiskExceptions_def ZerofillDiskExceptions_def Let_def const_defs store_eq)
next
  assume "ReadDiskExceptions s chunk read_size = Inr (ok, s')"
  then show "ReadDiskExceptions s' chunk read_size = Inr (ok, s')"
    by (rule ReadDiskExceptions_again)
next
  assume h: "sector (header (bufsink s)) \<noteq> 0 \<and>
    map_of (chunk_map s) (SectorToChunk (sector (header (bufsink s)))) = None \<and>
    4096 < min PAYLOAD_SIZE remaining_size \<and> ctrl_write_ok s (length (ctrl_out s))"
  let ?s1 = "set_type s DM_USER_RESP_SUCCESS"
  have rej: "ReadDiskExceptions ?s1 c (min PAYLOAD_SIZE remaining_size) = Inr (False, ?s1)" for c
    using h by (simp add: ReadDiskExceptions_def ZerofillDiskExceptions_def Let_def const_defs)
  show "Run_read_frame s remaining_size off =
        Inr (True, (set_type s DM_USER_RESP_ERROR)
               \<lparr>ctrl_out := ctrl_out s @
                  [((header (bufsink s))\<lparr>req_type := DM_USER_RESP_ERROR\<rparr>,
                    take (min PAYLOAD_SIZE remaining_size) (payload (bufsink s)))]\<rparr>)"
    using h by (simp add: Run_read_frame_def Let_def rej)
       (simp add: set_type_def WriteDmUserPayload_def)
qed

text \<open>
  The hypotheses of C8 at \<open>metadata_request\<close>: chunk 1 is area 0, chunk 258 is past the
  one area.
\<close>

theorem ReadDiskExceptions_serves_area_witness:
  "(exceptions_per_area * sizeof_disk_exception < 8192 \<and>
    ReadDiskExceptions metadata_request 1 8192 = Inr (False, metadata_request)) \<and>
   ((4096::nat) \<le> 4096 \<and> 1 div 257 < length (vec metadata_request) \<and>
    length (vec metadata_request ! (1 div 257)) = 256 \<and>
    GetPayloadBuffer (bufsink metadata_request) 4096 = Some 0 \<and>
    0 + 4096 \<le> length (payload (bufsink metadata_request)) \<and>
    length (area_bytes (vec metadata_request ! (1 div 257))) = 4096 \<and>
    ReadDiskExceptions metadata_request 1 4096 = Inr (True, metadata_served)) \<and>
   (\<not> 258 div 257 < length (vec metadata_request) \<and>
    ReadDiskExceptions metadata_request 258 4096 =
      Inr (True, metadata_request\<lparr>bufsink := (bufsink metadata_request)
             \<lparr>payload := take 0 (payload (bufsink metadata_request)) @ replicate 4096 0 @
                          drop (0 + 4096) (payload (bufsink metadata_request))\<rparr>\<rparr>)) \<and>
   ReadDiskExceptions metadata_served 1 4096 = Inr (True, metadata_served) \<and>
   (sector (header (bufsink metadata_request)) \<noteq> 0 \<and>
    map_of (chunk_map metadata_request)
      (SectorToChunk (sector (header (bufsink metadata_request)))) = None \<and>
    4096 < min PAYLOAD_SIZE 8192 \<and>
    ctrl_write_ok metadata_request (length (ctrl_out metadata_request)) \<and>
    Run_read_frame metadata_request 8192 0 =
      Inr (True, (set_type metadata_request DM_USER_RESP_ERROR)
             \<lparr>ctrl_out := ctrl_out metadata_request @
                [((header (bufsink metadata_request))\<lparr>req_type := DM_USER_RESP_ERROR\<rparr>,
                  take (min PAYLOAD_SIZE 8192) (payload (bufsink metadata_request)))]\<rparr>))"
proof -
  let ?W = metadata_request
  have h1: "exceptions_per_area * sizeof_disk_exception < 8192" by (simp add: const_defs)
  have c1: "ReadDiskExceptions ?W 1 8192 = Inr (False, ?W)"
    by (rule mp[OF ReadDiskExceptions_serves_area[where s="?W" and chunk=1 and read_size=8192,
            THEN conjunct1] h1])
  have h2: "(4096::nat) \<le> 4096 \<and> 1 div 257 < length (vec ?W) \<and> length (vec ?W ! (1 div 257)) = 256 \<and>
    GetPayloadBuffer (bufsink ?W) 4096 = Some 0 \<and> 0 + 4096 \<le> length (payload (bufsink ?W))"
    by (simp add: metadata_request_def served_defs area_E2_def zero_area_def GetPayloadBuffer_def)
  note c2 = mp[OF ReadDiskExceptions_serves_area[where s="?W" and chunk=1 and read_size=4096 and buf=0,
            THEN conjunct2, THEN conjunct1] h2, folded metadata_served_def]
  have h3: "(4096::nat) \<le> 4096 \<and> \<not> 258 div 257 < length (vec ?W) \<and>
    GetPayloadBuffer (bufsink ?W) 4096 = Some 0 \<and> 0 + 4096 \<le> length (payload (bufsink ?W))"
    by (simp add: metadata_request_def served_defs GetPayloadBuffer_def)
  note c3 = mp[OF ReadDiskExceptions_serves_area[where s="?W" and chunk=258 and read_size=4096 and buf=0,
            THEN conjunct2, THEN conjunct2, THEN conjunct1] h3]
  note c4 = mp[OF ReadDiskExceptions_serves_area[where s="?W" and chunk=1 and read_size=4096
            and ok=True and s'=metadata_served,
            THEN conjunct2, THEN conjunct2, THEN conjunct2, THEN conjunct1] c2[THEN conjunct2]]
  have h5: "sector (header (bufsink ?W)) \<noteq> 0 \<and>
    map_of (chunk_map ?W) (SectorToChunk (sector (header (bufsink ?W)))) = None \<and>
    4096 < min PAYLOAD_SIZE 8192 \<and> ctrl_write_ok ?W (length (ctrl_out ?W))"
    by (simp add: metadata_request_def served_defs SectorToChunk_def)
  note c5 = mp[OF ReadDiskExceptions_serves_area[where s="?W" and remaining_size=8192 and off=0,
            THEN conjunct2, THEN conjunct2, THEN conjunct2, THEN conjunct2] h5]
  show ?thesis
    using h1 c1 h2 c2 h3 c3 c4 h5 c5 by blast
qed

subsection \<open>Data reads\<close>

lemma ReadData_switch_frame:
  assumes "ReadData_switch s c = Inr (ret, s1)"
  shows "chunk_map s1 = chunk_map s"
    and "dispatched s1 = dispatched s @ (if mergeable c then [c] else [])"
    and "ret \<Longrightarrow> mergeable c"
  using assms
  by (auto simp: ReadData_switch_def ProcessReplaceOp_def ProcessZeroOp_def ProcessCopyOp_def
        store_def payload_store_def mergeable_def
        split: cow_op_type.splits option.splits sum.splits if_splits)

lemma copy_isolatedD:
  assumes "copy_isolated m" and "map_of m k = Some c" and "type c = kCowCopyOp"
  shows "map_of m (Suc k) = None" and "Suc j = k \<Longrightarrow> map_of m j = None"
proof -
  from assms(2) have mem: "(k, c) \<in> set m" by (rule map_of_SomeD)
  from bspec[OF assms(1)[unfolded copy_isolated_def] mem] assms(3)
  have a: "Suc k \<notin> fst ` set m" and b: "\<forall>j. Suc j = k \<longrightarrow> j \<notin> fst ` set m" by simp_all
  from a show "map_of m (Suc k) = None" by (simp add: map_of_eq_None_iff)
  assume "Suc j = k"
  with b show "map_of m j = None" by (simp add: map_of_eq_None_iff)
qed

text \<open>
  No function that the \<^verbatim>\<open>switch\<close> of \<^verbatim>\<open>ReadData\<close> calls fails the assertion on \<open>read_size\<close>.
\<close>

lemma ReadData_switch_fault:
  "ReadData_switch s c = Inl e \<Longrightarrow> e \<noteq> CheckFailed ''read_size == 0''"
  by (auto simp: ReadData_switch_def ProcessReplaceOp_def ProcessZeroOp_def ProcessCopyOp_def
        store_def payload_store_def
        split: cow_op_type.splits option.splits sum.splits if_splits)

text \<open>
  A run of \<open>n\<close> contiguous keys of a map in which no key is next to the key of a Copy: if
  one of them is the key of a Copy, the run is that key alone.
\<close>

lemma copy_request_single:
  assumes iso: "copy_isolated m" and keys: "\<forall>j<n. map_of m (chunk + j) \<noteq> None"
    and k: "k < n" and look: "map_of m (chunk + k) = Some c" and ty: "type c = kCowCopyOp"
  shows "n = 1 \<and> k = 0"
proof -
  have k0: "k = 0"
  proof (rule ccontr)
    assume "k \<noteq> 0"
    then obtain j where j: "k = Suc j" by (cases k) auto
    then have "Suc (chunk + j) = chunk + k" by simp
    from copy_isolatedD(2)[OF iso look ty this] have "map_of m (chunk + j) = None" .
    moreover from j k have "j < n" by simp
    ultimately show False using keys by blast
  qed
  have "n = 1"
  proof (rule ccontr)
    assume "n \<noteq> 1"
    with k k0 have "Suc k < n" by simp
    with keys have "map_of m (chunk + Suc k) \<noteq> None" by blast
    moreover from copy_isolatedD(1)[OF iso look ty] have "map_of m (chunk + Suc k) = None" by simp
    ultimately show False by simp
  qed
  with k0 show ?thesis by simp
qed

lemma ReadData_loop_done: "ReadData_loop s k 0 = Inr (True, s)"
  by (subst ReadData_loop.simps) simp

text \<open>A read of one block at the chunk of a Copy.\<close>

lemma ReadData_copy_single:
  assumes look: "map_of (chunk_map s) chunk = Some c" and ty: "type c = kCowCopyOp"
    and d: "dispatched s = []"
  shows "ReadData s chunk BLOCK_SIZE \<noteq> Inl (CheckFailed ''read_size == 0'') \<and>
         (\<forall>ret s'. ReadData s chunk BLOCK_SIZE = Inr (ret, s') \<longrightarrow> dispatched s' = [c])"
proof (cases "ReadData_switch s c")
  case (Inl e)
  then have "ReadData s chunk BLOCK_SIZE = Inl e"
    unfolding ReadData_def using look
    by (subst ReadData_loop.simps) (simp add: CHECK_def BLOCK_SIZE_def)
  with ReadData_switch_fault[OF Inl] show ?thesis by simp
next
  case (Inr p)
  then obtain r s1 where sw: "ReadData_switch s c = Inr (r, s1)" by (cases p) auto
  from ReadData_switch_frame(2)[OF sw] ty d have d1: "dispatched s1 = [c]"
    by (simp add: mergeable_def)
  show ?thesis
    unfolding ReadData_def using look sw ty d1
    by (subst ReadData_loop.simps, subst ReadData_loop.simps)
       (auto simp: CHECK_def BLOCK_SIZE_def ReadData_loop_done split: if_splits)
qed

text \<open>
  A read of more than one block at the chunk of a Copy, the Copy dispatched with success:
  the remaining size is not 0 and the assertion after the Copy fails.
\<close>

lemma ReadData_copy_guard:
  assumes look: "map_of (chunk_map s) chunk = Some c" and ty: "type c = kCowCopyOp"
    and sw: "ReadData_switch s c = Inr (True, s1)" and m: "1 < m"
  shows "ReadData s chunk (m * BLOCK_SIZE) = Inl (CheckFailed ''read_size == 0'')"
proof -
  from m have "m * BLOCK_SIZE - BLOCK_SIZE \<noteq> 0" "0 < m * BLOCK_SIZE"
    by (simp_all add: BLOCK_SIZE_def)
  then show ?thesis
    unfolding ReadData_def using look sw ty
    by (subst ReadData_loop.simps) (simp add: CHECK_def)
qed

text \<open>
  Claim C4. A read dispatched over the chunk map is a request of \<open>n\<close> blocks at \<open>chunk\<close>,
  each block at a key of the map that the metadata build produced. If one of its blocks,
  the \<open>k\<close>-th, is a Copy operation \<open>c\<close>, then that block is the whole request (\<open>n = 1\<close>,
  \<open>k = 0\<close>): the size that remains after \<open>c\<close> is dispatched is 0, \<^verbatim>\<open>CHECK(read_size == 0)\<close> does
  not fail, and when \<^verbatim>\<open>ReadData\<close> returns, \<open>c\<close> is the only operation it has dispatched.
  The assertion after a Copy is in force: a read of more than one block at the chunk of
  \<open>c\<close> that dispatches \<open>c\<close> with success fails it, whatever follows \<open>c\<close>.
\<close>

theorem ReadData_copy_alone:
  assumes "vec s0 = []" and "chunk_map s0 = []" and "ReadMetadata s0 = Inr (True, sb)"
    and "chunk_map s = chunk_map sb" and "dispatched s = []"
    and "\<forall>j<n. map_of (chunk_map s) (chunk + j) \<noteq> None"
    and "k < n" and "map_of (chunk_map s) (chunk + k) = Some c" and "type c = kCowCopyOp"
  shows "n = 1 \<and> k = 0 \<and>
         ReadData s chunk (n * BLOCK_SIZE) \<noteq> Inl (CheckFailed ''read_size == 0'') \<and>
         (\<forall>ret s'. ReadData s chunk (n * BLOCK_SIZE) = Inr (ret, s') \<longrightarrow> dispatched s' = [c]) \<and>
         (\<forall>m s1. 1 < m \<and> ReadData_switch s c = Inr (True, s1) \<longrightarrow>
            ReadData s (chunk + k) (m * BLOCK_SIZE) = Inl (CheckFailed ''read_size == 0''))"
proof -
  from ReadMetadata_result[OF assms(1-3)] assms(4) have iso: "copy_isolated (chunk_map s)"
    by (auto simp: rm_copy_inv_def)
  from copy_request_single[OF iso assms(6-9)] have n: "n = 1" and k: "k = 0" by simp_all
  from assms(8) k have look: "map_of (chunk_map s) chunk = Some c" by simp
  note one = ReadData_copy_single[OF look assms(9) assms(5)]
  have guard: "ReadData s (chunk + k) (m * BLOCK_SIZE) = Inl (CheckFailed ''read_size == 0'')"
    if "1 < m \<and> ReadData_switch s c = Inr (True, s1)" for m s1
    using ReadData_copy_guard[OF assms(8,9)] that by blast
  from n k one guard show ?thesis by simp
qed

lemma ReadData_copy_block: "ReadData (served log_E2 []) 3 4096 = Inr (True, copy_read)"
  unfolding ReadData_def
  apply (subst ReadData_loop.simps)
  apply (subst ReadData_loop.simps)
  apply (simp add: served_defs copy_read_def CHECK_def ReadData_switch_def ProcessCopyOp_def
      GetPayloadBuffer_def store_def payload_store_def UpdateBufferOffset_def ResetBufferOffset_def)
  done

lemma ReadData_switch_copy:
  "ReadData_switch (served log_E2 []) (copy_op 20 30) = Inr (True, copy_read)"
  by (simp add: served_defs copy_read_def ReadData_switch_def ProcessCopyOp_def
      GetPayloadBuffer_def store_def payload_store_def copy_op_def)

text \<open>
  The hypotheses of C4 at the daemon serving \<open>log_E2\<close>: the request of one block at chunk
  3, the chunk of the Copy. A read of two blocks there fails the assertion (chunk 4 is not
  a key of the map).
\<close>

theorem ReadData_copy_alone_witness:
  "vec (example_init log_E2 []) = [] \<and> chunk_map (example_init log_E2 []) = [] \<and>
   ReadMetadata (example_init log_E2 []) = Inr (True, built_E2 log_E2 (example_init log_E2 [])) \<and>
   chunk_map (served log_E2 []) = chunk_map (built_E2 log_E2 (example_init log_E2 [])) \<and>
   dispatched (served log_E2 []) = [] \<and>
   map_of (chunk_map (served log_E2 [])) (3 + 0) = Some (copy_op 20 30) \<and>
   (0::nat) < 1 \<and> type (copy_op 20 30) = kCowCopyOp \<and>
   ReadData (served log_E2 []) 3 (1 * BLOCK_SIZE) \<noteq> Inl (CheckFailed ''read_size == 0'') \<and>
   ReadData (served log_E2 []) 3 (1 * BLOCK_SIZE) = Inr (True, copy_read) \<and>
   dispatched copy_read = [copy_op 20 30] \<and>
   ReadData_switch (served log_E2 []) (copy_op 20 30) = Inr (True, copy_read) \<and>
   map_of (chunk_map (served log_E2 [])) 4 = None \<and>
   ReadData (served log_E2 []) (3 + 0) (2 * BLOCK_SIZE) = Inl (CheckFailed ''read_size == 0'')"
proof -
  let ?i = "example_init log_E2 []"
  let ?d = "served log_E2 []"
  have f1: "vec ?i = []" and f2: "chunk_map ?i = []" by (simp_all add: example_defs)
  have run: "ReadMetadata ?i = Inr (True, built_E2 log_E2 ?i)" by (rule run_E2)
  have cm: "chunk_map ?d = chunk_map (built_E2 log_E2 ?i)"
    by (simp add: served_def built_E2_def)
  have d0: "dispatched ?d = []"
    by (simp add: served_def built_E2_def example_defs)
  have look: "map_of (chunk_map ?d) (3 + 0) = Some (copy_op 20 30)"
    by (simp add: served_def built_E2_def)
  have keys: "\<forall>j<1. map_of (chunk_map ?d) (3 + j) \<noteq> None"
    using look by simp
  have ty: "type (copy_op 20 30) = kCowCopyOp" by (simp add: copy_op_def)
  have rd: "ReadData ?d 3 (1 * BLOCK_SIZE) = Inr (True, copy_read)"
    using ReadData_copy_block by (simp add: BLOCK_SIZE_def)
  have sw: "ReadData_switch ?d (copy_op 20 30) = Inr (True, copy_read)"
    by (rule ReadData_switch_copy)
  have no4: "map_of (chunk_map ?d) 4 = None" by (simp add: served_def built_E2_def)
  note main = ReadData_copy_alone[OF f1 f2 run cm d0 keys zero_less_one look ty]
  note c3 = main[THEN conjunct2, THEN conjunct2, THEN conjunct1]
  note c4 = main[THEN conjunct2, THEN conjunct2, THEN conjunct2, THEN conjunct1, rule_format, OF rd]
  have c5: "ReadData ?d (3 + 0) (2 * BLOCK_SIZE) = Inl (CheckFailed ''read_size == 0'')"
    by (rule main[THEN conjunct2, THEN conjunct2, THEN conjunct2, THEN conjunct2, rule_format])
       (simp add: sw)
  show ?thesis by (intro conjI f1 f2 run cm d0 look zero_less_one ty c3 rd c4 sw no4 c5)
qed

subsection \<open>Merge reconciliation\<close>

lemma le_nat_zero: "le_nat (replicate n 0) = 0"
  by (induction n) (simp_all add: le_nat_def)

lemma de_at_zero: "off + 16 \<le> n \<Longrightarrow> de_at (replicate n 0) off = Inr zero_de"
  by (simp add: de_at_def sizeof_disk_exception_def zero_de_def le_nat_zero)

lemma de_at_zero_oob: "n < off + 16 \<Longrightarrow> de_at (replicate n 0) off = Inl OutOfBounds"
  by (simp add: de_at_def sizeof_disk_exception_def)

text \<open>
  Phase B on an all-zero page and an area whose entries from index \<open>k\<close> on are all live:
  the loop zeroes them, and with \<open>unmerged + merged = 256\<close> its guard still holds.
\<close>

lemma merged_ops_full:
  assumes "length a = 256" and "\<forall>i. k \<le> i \<and> i < 256 \<longrightarrow> new_chunk (a ! i) \<noteq> 0"
    and "u + m = k" and "k \<le> 256" and "4096 \<le> n"
  shows "GetNumberOfMergedOps_loop (replicate n 0) a (16 * k) u m = Inl OutOfBounds"
  using assms
proof (induction "256 - k" arbitrary: k a m)
  case 0
  then have k: "k = 256" by simp
  show ?case
  proof (cases "n < 16 * k + 16")
    case True
    then show ?thesis using 0 k
      by (subst GetNumberOfMergedOps_loop.simps) (simp add: de_at_zero_oob exceptions_per_area_256)
  next
    case False
    then have "16 * k + 16 \<le> n" by simp
    then show ?thesis using 0 k
      by (subst GetNumberOfMergedOps_loop.simps)
         (simp add: de_at_zero exceptions_per_area_256 CHECK_def zero_de_def area_read_def sizeof_disk_exception_def)
  qed
next
  case (Suc d)
  then have k: "k < 256" by simp
  have rd: "de_at (replicate n 0) (16 * k) = Inr zero_de"
    using k Suc.prems(5) by (intro de_at_zero) simp
  have live: "new_chunk (a ! k) \<noteq> 0" using Suc.prems(2) k by simp
  let ?a = "a[k := zero_de]"
  have step: "GetNumberOfMergedOps_loop (replicate n 0) a (16 * k) u m =
              GetNumberOfMergedOps_loop (replicate n 0) ?a (16 * Suc k) u (Suc m)"
    using k Suc.prems(1,3) live rd
    by (subst GetNumberOfMergedOps_loop.simps)
       (simp add: exceptions_per_area_256 CHECK_def zero_de_def area_read_def area_write_def
          sizeof_disk_exception_def add.commute)
  have "GetNumberOfMergedOps_loop (replicate n 0) ?a (16 * Suc k) u (Suc m) = Inl OutOfBounds"
  proof (rule Suc.hyps(1))
    show "d = 256 - Suc k" using Suc.hyps(2) by simp
    show "length ?a = 256" using Suc.prems(1) by simp
    show "\<forall>i. Suc k \<le> i \<and> i < 256 \<longrightarrow> new_chunk (?a ! i) \<noteq> 0"
      using Suc.prems(1,2) by auto
    show "u + Suc m = Suc k" using Suc.prems(3) by simp
    show "Suc k \<le> 256" using k by simp
    show "4096 \<le> n" by (rule Suc.prems(5))
  qed
  with step show ?case by simp
qed

text \<open>The bytes of an area, read back as disk exceptions.\<close>

lemma le_nat_append: "le_nat (xs @ ys) = le_nat xs + 256 ^ length xs * le_nat ys"
  by (induction xs) (simp_all add: le_nat_def algebra_simps)

lemma le_bytes_Suc: "le_bytes (Suc n) v = le_bytes n v @ [word_of_nat (v div 256 ^ n)]"
  by (simp add: le_bytes_def)

lemma unat_byte_of_nat: "unat (word_of_nat x :: byte) = x mod 256"
  by (simp add: unat_of_nat)

lemma le_nat_single: "le_nat [b] = unat b"
  by (simp add: le_nat_def)

lemma le_nat_le_bytes: "le_nat (le_bytes n v) = v mod 256 ^ n"
proof (induction n)
  case 0
  then show ?case by (simp add: le_bytes_def le_nat_def)
next
  case (Suc n)
  have "le_nat (le_bytes (Suc n) v) = v mod 256 ^ n + 256 ^ n * ((v div 256 ^ n) mod 256)"
    by (simp add: le_bytes_Suc le_nat_append Suc length_le_bytes unat_byte_of_nat le_nat_single)
  also have "\<dots> = v mod (256 ^ n * 256)"
    using mod_mult2_eq[of v "256 ^ n" 256] by simp
  also have "\<dots> = v mod 256 ^ Suc n"
    by (simp add: mult.commute)
  finally show ?case .
qed

lemma de_at_area_bytes:
  assumes "i < length a" and "old_chunk (a ! i) < 2 ^ 64" and "new_chunk (a ! i) < 2 ^ 64"
  shows "de_at (area_bytes a) (sizeof_disk_exception * i) = Inr (a ! i)"
  using assms
proof (induction a arbitrary: i)
  case Nil
  then show ?case by simp
next
  case (Cons d a)
  show ?case
  proof (cases i)
    case 0
    have "le_nat (le_bytes 8 (old_chunk d)) = old_chunk d" "le_nat (le_bytes 8 (new_chunk d)) = new_chunk d"
      using Cons.prems 0 by (simp_all add: le_nat_le_bytes)
    then show ?thesis using 0
      by (simp add: de_at_def area_bytes_def de_bytes_def length_le_bytes sizeof_disk_exception_def)
  next
    case (Suc j)
    have l: "length (de_bytes d) = 16" by (simp add: de_bytes_def length_le_bytes)
    from Cons.IH[of j] Cons.prems Suc
    have ih: "de_at (area_bytes a) (sizeof_disk_exception * j) = Inr (a ! j)" by simp
    have "de_at (area_bytes (d # a)) (sizeof_disk_exception * i) = de_at (area_bytes a) (sizeof_disk_exception * j)"
      using Suc l by (simp add: de_at_def area_bytes_def sizeof_disk_exception_def add.commute)
    with ih Suc show ?thesis by simp
  qed
qed


text \<open>
  Phase A on a page that equals the stored area, all 256 entries live: with
  \<open>unmerged = 256\<close> the guard still holds.
\<close>

lemma merge_start_full:
  assumes "length a = 256"
    and "\<forall>i<256. old_chunk (a ! i) \<noteq> 0 \<and> new_chunk (a ! i) \<noteq> 0 \<and>
                  old_chunk (a ! i) < 2 ^ 64 \<and> new_chunk (a ! i) < 2 ^ 64"
    and "k \<le> 256"
  shows "GetMergeStartOffset_loop (area_bytes a) a (16 * k) k = Inl OutOfBounds"
  using assms(3)
proof (induction "256 - k" arbitrary: k)
  case 0
  then have k: "k = 256" by simp
  have "de_at (area_bytes a) (16 * k) = Inl OutOfBounds"
    using assms(1) k by (simp add: de_at_def length_area_bytes sizeof_disk_exception_def)
  then show ?case using k
    by (subst GetMergeStartOffset_loop.simps) (simp add: exceptions_per_area_256)
next
  case (Suc d)
  then have k: "k < 256" by simp
  with assms(2) have e: "old_chunk (a ! k) \<noteq> 0" "new_chunk (a ! k) \<noteq> 0"
    "old_chunk (a ! k) < 2 ^ 64" "new_chunk (a ! k) < 2 ^ 64" by simp_all
  have rd: "de_at (area_bytes a) (16 * k) = Inr (a ! k)"
    using de_at_area_bytes[of k a] k assms(1) e by (simp add: sizeof_disk_exception_def)
  have ar: "area_read a (16 * k) = Inr (a ! k)"
    using k assms(1) by (simp add: area_read_def sizeof_disk_exception_def)
  have step: "GetMergeStartOffset_loop (area_bytes a) a (16 * k) k =
              GetMergeStartOffset_loop (area_bytes a) a (16 * Suc k) (Suc k)"
    using k e rd ar
    by (subst GetMergeStartOffset_loop.simps)
       (simp add: exceptions_per_area_256 CHECK_def sizeof_disk_exception_def add.commute)
  have "GetMergeStartOffset_loop (area_bytes a) a (16 * Suc k) (Suc k) = Inl OutOfBounds"
    by (rule Suc.hyps(1)) (use Suc.hyps(2) k in simp_all)
  with step show ?case by simp
qed

text \<open>
  Claim C1 says that no phase examines an entry at index 256 or beyond. The guards of both
  loops are \<^verbatim>\<open><=\<close>. On a stored area with 256 live entries and a page the kernel has zeroed
  entirely, \<^verbatim>\<open>GetNumberOfMergedOps\<close> goes on to the entry at index 256: given the page alone
  (4096 bytes) it reads past the page; given the whole payload of the sink (65536 bytes) it
  reads past the stored area. On the same area and a page that equals it,
  \<^verbatim>\<open>GetMergeStartOffset\<close> reads the entry at index 256 of the page before its assertion.
\<close>

theorem merge_reads_past_area:
  "GetNumberOfMergedOps (replicate 4096 0) full_area 0 0 = Inl OutOfBounds \<and>
   GetNumberOfMergedOps (replicate 65536 0) full_area 0 0 = Inl OutOfBounds \<and>
   GetMergeStartOffset (area_bytes full_area) full_area = Inl OutOfBounds \<and>
   length full_area = exceptions_per_area"
proof -
  have l: "length full_area = 256" by (simp add: full_area_def del: upt_rec_numeral)
  have live: "\<forall>i. 0 \<le> i \<and> i < 256 \<longrightarrow> new_chunk (full_area ! i) \<noteq> 0"
    by (simp add: full_area_def del: upt_rec_numeral)
  have a: "GetNumberOfMergedOps_loop (replicate 4096 0) full_area (16 * 0) 0 0 = Inl OutOfBounds"
    by (rule merged_ops_full[OF l live]) simp_all
  have b: "GetNumberOfMergedOps_loop (replicate 65536 0) full_area (16 * 0) 0 0 = Inl OutOfBounds"
    by (rule merged_ops_full[OF l live]) simp_all
  have all: "\<forall>i<256. old_chunk (full_area ! i) \<noteq> 0 \<and> new_chunk (full_area ! i) \<noteq> 0 \<and>
                  old_chunk (full_area ! i) < 2 ^ 64 \<and> new_chunk (full_area ! i) < 2 ^ 64"
  proof -
    have "256 - i < (2::nat) ^ 64" for i :: nat
      by (rule le_less_trans[OF diff_le_self]) simp
    then show ?thesis by (simp add: full_area_def del: upt_rec_numeral)
  qed
  have c: "GetMergeStartOffset_loop (area_bytes full_area) full_area (16 * 0) 0 = Inl OutOfBounds"
    by (rule merge_start_full[OF l all]) simp
  show ?thesis using a b c l
    by (simp add: GetNumberOfMergedOps_def GetMergeStartOffset_def exceptions_per_area_256)
qed

lemma GetMergeStartOffset_loop_offset:
  "GetMergeStartOffset_loop mb a off u = Inr (off', u') \<Longrightarrow> off = sizeof_disk_exception * u \<Longrightarrow>
     off' = sizeof_disk_exception * u'"
proof (induction mb a off u rule: GetMergeStartOffset_loop.induct)
  case (1 mb a off u)
  note run = "1.prems"(1)[unfolded GetMergeStartOffset_loop.simps[of mb a off u]]
  show ?case
  proof (cases "u \<le> exceptions_per_area")
    case False
    with run "1.prems"(2) show ?thesis by auto
  next
    case guard: True
    with run obtain md where rd: "de_at mb off = Inr md" by (auto split: sum.splits)
    show ?thesis
    proof (cases "old_chunk md \<noteq> 0")
      case False
      with guard rd run "1.prems"(2) show ?thesis by (auto simp: CHECK_def split: if_splits)
    next
      case live: True
      with guard rd run obtain cd where cr: "area_read a off = Inr cd"
        by (auto simp: CHECK_def split: if_splits sum.splits)
      with guard rd live run have
        rec: "GetMergeStartOffset_loop mb a (off + sizeof_disk_exception) (u + 1) = Inr (off', u')"
        by (auto simp: CHECK_def split: if_splits)
      show ?thesis
        by (rule "1.IH"[OF guard rd live cr rec]) (simp add: "1.prems"(2))
    qed
  qed
qed

lemma GetNumberOfMergedOps_loop_zeroes:
  "GetNumberOfMergedOps_loop mb a off u k = Inr (m, a') \<Longrightarrow> off = sizeof_disk_exception * i \<Longrightarrow>
     m \<noteq> - 1 \<Longrightarrow>
     int k \<le> m \<and> length a' = length a \<and>
     (\<forall>j<length a. a' ! j = (if i \<le> j \<and> j < i + (nat m - k) then zero_de else a ! j))"
proof (induction mb a off u k arbitrary: i rule: GetNumberOfMergedOps_loop.induct)
  case (1 mb a off u k)
  note run = "1.prems"(1)[unfolded GetNumberOfMergedOps_loop.simps[of mb a off u k]]
  show ?case
  proof (cases "u + k \<le> exceptions_per_area")
    case False
    with run show ?thesis by auto
  next
    case guard: True
    with run obtain md where rd: "de_at mb off = Inr md" by (auto split: sum.splits)
    with guard run obtain cd where cr: "area_read a off = Inr cd"
      by (auto simp: CHECK_def split: if_splits sum.splits)
    show ?thesis
    proof (cases "new_chunk cd \<noteq> 0")
      case False
      with guard rd cr run "1.prems"(3) show ?thesis
        by (auto simp: CHECK_def split: if_splits)
    next
      case live: True
      with guard rd cr run obtain a1 where wr: "area_write a off zero_de = Inr a1"
        by (auto simp: CHECK_def split: if_splits sum.splits)
      with guard rd cr live run have
        rec: "GetNumberOfMergedOps_loop mb a1 (off + sizeof_disk_exception) u (k + 1) = Inr (m, a')"
        by (auto simp: CHECK_def split: if_splits)
      have idx: "off div sizeof_disk_exception = i"
        using "1.prems"(2) by (simp add: sizeof_disk_exception_def)
      from wr idx have ilt: "i < length a" and a1: "a1 = a[i := zero_de]"
        by (auto simp: area_write_def split: if_splits)
      have off': "off + sizeof_disk_exception = sizeof_disk_exception * Suc i"
        using "1.prems"(2) by simp
      from "1.IH"[OF guard rd cr live wr rec off' "1.prems"(3)]
      have ih: "int (k + 1) \<le> m" "length a' = length a1"
        "\<forall>j<length a1. a' ! j = (if Suc i \<le> j \<and> j < Suc i + (nat m - (k + 1)) then zero_de else a1 ! j)"
        by simp_all
      have "a' ! j = (if i \<le> j \<and> j < i + (nat m - k) then zero_de else a ! j)" if "j < length a" for j
        using ih(1,3) that a1 ilt by (cases "j = i") auto
      with ih(1,2) a1 show ?thesis by simp
    qed
  qed
qed

lemma AdvanceMergedOps_loop_passed:
  "AdvanceMergedOps_loop it n = (True, it', n') \<Longrightarrow>
     \<exists>passed. it = passed @ it' \<and> int (length (filter mergeable passed)) = n - n' \<and>
       (\<forall>c\<in>set passed. mergeable c \<or> type c = kCowFooterOp \<or> type c = kCowLabelOp) \<and>
       (it' \<noteq> [] \<longrightarrow> n' = 0)"
proof (induction it arbitrary: n)
  case Nil
  then show ?case by simp
next
  case (Cons c it)
  show ?case
  proof (cases "n = 0")
    case True
    with Cons.prems show ?thesis by auto
  next
    case nz: False
    show ?thesis
    proof (cases "type c = kCowFooterOp \<or> type c = kCowLabelOp")
      case True
      then have nm: "\<not> mergeable c" by (auto simp: mergeable_def)
      from nz True Cons.prems have "AdvanceMergedOps_loop it n = (True, it', n')" by simp
      from Cons.IH[OF this] obtain passed where
        "it = passed @ it'" "int (length (filter mergeable passed)) = n - n'"
        "\<forall>c\<in>set passed. mergeable c \<or> type c = kCowFooterOp \<or> type c = kCowLabelOp"
        "it' \<noteq> [] \<longrightarrow> n' = 0" by blast
      with nm True show ?thesis by (intro exI[of _ "c # passed"]) auto
    next
      case False
      with nz Cons.prems have m: "mergeable c"
        by (auto simp: mergeable_def split: if_splits)
      with nz False Cons.prems have "AdvanceMergedOps_loop it (n - 1) = (True, it', n')"
        by (auto simp: mergeable_def split: if_splits)
      from Cons.IH[OF this] obtain passed where
        "it = passed @ it'" "int (length (filter mergeable passed)) = n - 1 - n'"
        "\<forall>c\<in>set passed. mergeable c \<or> type c = kCowFooterOp \<or> type c = kCowLabelOp"
        "it' \<noteq> [] \<longrightarrow> n' = 0" by blast
      with m show ?thesis by (intro exI[of _ "c # passed"]) auto
    qed
  qed
qed


text \<open>
  A return of \<^verbatim>\<open>ProcessMergeComplete\<close> with true in which no access has left the page or
  the stored area (such an access is a fault of the model, not a return). The state differs
  from the one before in this only: in the stored area of index \<open>chunk / 257\<close> the \<open>m > 0\<close>
  entries from the merge frontier \<open>u\<close> on (the count \<^verbatim>\<open>GetMergeStartOffset\<close> returns) are
  zeroed; the forward iterator has passed a run of operations holding exactly \<open>m\<close> Replace,
  Zero and Copy operations (and Labels and Footers); \<open>m\<close> has been reported to
  \<^verbatim>\<open>UpdateMergeProgress\<close> and to \<^verbatim>\<open>CommitMerge\<close>. The COW device and its header, the chunk
  map, the sink and every other area are as before.
\<close>

lemma ProcessMergeComplete_frame_in_bounds:
  assumes "ProcessMergeComplete s chunk buffer = Inr (True, s')"
  shows "\<exists>u m passed rest.
           0 < m \<and> chunk div (exceptions_per_area + 1) < length (vec s) \<and>
           GetMergeStartOffset buffer (vec s ! (chunk div (exceptions_per_area + 1))) =
             Inr (sizeof_disk_exception * u, u) \<and>
           cowop_iter s = passed @ rest \<and> length (filter mergeable passed) = m \<and>
           (\<forall>c\<in>set passed. mergeable c \<or> type c = kCowFooterOp \<or> type c = kCowLabelOp) \<and>
           s' = s\<lparr>vec := (vec s)[chunk div (exceptions_per_area + 1) :=
                            zero_range u m (vec s ! (chunk div (exceptions_per_area + 1)))],
                   cowop_iter := rest,
                   merge_progress := merge_progress s @ [int m],
                   commits := commits s @ [int m]\<rparr> \<and>
           cow s' = cow s \<and> chunk_map s' = chunk_map s \<and> bufsink s' = bufsink s \<and>
           length (vec s') = length (vec s) \<and>
           (\<forall>k. k \<noteq> chunk div (exceptions_per_area + 1) \<longrightarrow> vec s' ! k = vec s ! k)"
proof -
  let ?q = "chunk div (exceptions_per_area + 1)"
  let ?a = "vec s ! ?q"
  note run = assms[unfolded ProcessMergeComplete_def Let_def]
  from run obtain hdr where hd: "cow_header (cow s) = Some hdr" by (auto split: option.splits)
  with run have q: "?q < length (vec s)" by (auto simp: CHECK_def split: if_splits)
  with hd run obtain off u where start: "GetMergeStartOffset buffer ?a = Inr (off, u)"
    by (auto simp: CHECK_def split: sum.splits)
  with hd q run obtain mi a' where cnt: "GetNumberOfMergedOps buffer ?a off u = Inr (mi, a')"
    by (auto simp: CHECK_def split: sum.splits)
  with hd q start run have pos: "0 < mi" by (auto simp: CHECK_def split: if_splits)
  let ?s1 = "s\<lparr>vec := (vec s)[?q := a']\<rparr>"
  from hd q start cnt pos run obtain s2 where adv: "AdvanceMergedOps ?s1 mi = Inr (True, s2)"
    by (auto simp: CHECK_def split: sum.splits if_splits)
  with hd q start cnt pos run have s': "s' = s2\<lparr>merge_progress := merge_progress s2 @ [mi],
      commits := commits s2 @ [mi]\<rparr>"
    by (auto simp: CHECK_def split: if_splits)
  from adv obtain it' n' where lp: "AdvanceMergedOps_loop (cowop_iter s) mi = (True, it', n')"
    and s2: "s2 = ?s1\<lparr>cowop_iter := it'\<rparr>" and n0: "it' = [] \<longrightarrow> n' = 0"
    by (auto simp: AdvanceMergedOps_def CHECK_def split: prod.splits if_splits)
  from AdvanceMergedOps_loop_passed[OF lp] obtain passed where
    p: "cowop_iter s = passed @ it'" "int (length (filter mergeable passed)) = mi - n'"
    "\<forall>c\<in>set passed. mergeable c \<or> type c = kCowFooterOp \<or> type c = kCowLabelOp"
    "it' \<noteq> [] \<longrightarrow> n' = 0" by blast
  from n0 p(4) have "n' = 0" by blast
  with p(2) pos have plen: "length (filter mergeable passed) = nat mi" by simp
  from start obtain u0 where sl: "GetMergeStartOffset_loop buffer ?a 0 0 = Inr (off, u)"
    by (auto simp: GetMergeStartOffset_def CHECK_def split: sum.splits if_splits)
  from GetMergeStartOffset_loop_offset[OF sl] have off: "off = sizeof_disk_exception * u" by simp
  from cnt have cl: "GetNumberOfMergedOps_loop buffer ?a off u 0 = Inr (mi, a')"
    by (simp add: GetNumberOfMergedOps_def)
  from GetNumberOfMergedOps_loop_zeroes[OF cl off] pos
  have la: "length a' = length ?a"
    and za: "\<forall>j<length ?a. a' ! j = (if u \<le> j \<and> j < u + nat mi then zero_de else ?a ! j)"
    by simp_all
  have a': "a' = zero_range u (nat mi) ?a"
    by (rule nth_equalityI) (simp_all add: zero_range_def la za)
  have eq: "s' = s\<lparr>vec := (vec s)[?q := zero_range u (nat mi) ?a], cowop_iter := it',
                   merge_progress := merge_progress s @ [int (nat mi)],
                   commits := commits s @ [int (nat mi)]\<rparr>"
    using pos by (simp add: s' s2 a')
  have frame: "cow s' = cow s \<and> chunk_map s' = chunk_map s \<and> bufsink s' = bufsink s \<and>
           length (vec s') = length (vec s) \<and> (\<forall>k. k \<noteq> ?q \<longrightarrow> vec s' ! k = vec s ! k)"
    by (simp add: eq)
  from pos have "0 < nat mi" by simp
  with q p(1,3) plen eq frame start[unfolded off] show ?thesis by blast
qed

text \<open>The merge of the spec's scenario E4 is such a run.\<close>

lemma merge_E4_gen:
  assumes "vec s = [area_E2]" and "cow_header (cow s) = Some h" and "cowop_iter s = log_E2"
    and "cow_commit_ok (cow s) (length (commits s))" and "c < 257"
  shows "ProcessMergeComplete s c (replicate 65536 0) =
           Inr (True, s\<lparr>vec := [area_E2[0 := zero_de, 1 := zero_de]], cowop_iter := [],
                         merge_progress := merge_progress s @ [2], commits := commits s @ [2]\<rparr>)"
proof -
  have rd: "de_at (replicate 65536 0) off = Inr zero_de" if "off \<le> 32" for off
    using that by (intro de_at_zero) simp
  have start: "GetMergeStartOffset (replicate 65536 0) area_E2 = Inr (0, 0)"
    unfolding GetMergeStartOffset_def
    by (subst GetMergeStartOffset_loop.simps)
       (simp add: rd CHECK_def zero_de_def const_defs)
  have cnt: "GetNumberOfMergedOps (replicate 65536 0) area_E2 0 0 =
               Inr (2, area_E2[0 := zero_de, 1 := zero_de])"
    unfolding GetNumberOfMergedOps_def
    apply (subst GetNumberOfMergedOps_loop.simps)
    apply (subst GetNumberOfMergedOps_loop.simps)
    apply (subst GetNumberOfMergedOps_loop.simps)
    apply (simp add: rd CHECK_def zero_de_def area_read_def area_write_def area_E2_def
        zero_area_def const_defs)
    done
  show ?thesis
    using assms
    by (simp add: ProcessMergeComplete_def Let_def CHECK_def start cnt const_defs
        AdvanceMergedOps_def log_E2_def example_defs)
qed

lemma merge_E4:
  "ProcessMergeComplete (served log_E2 []) 1 (replicate 65536 0) = Inr (True, merged_E4)"
  by (subst merge_E4_gen[where h="\<lparr>block_size = 4096, num_merge_ops = 0\<rparr>"])
     (simp_all add: served_def built_E2_def example_defs merged_E4_def)

text \<open>The members that the metadata build leaves as they are.\<close>

lemma ReadMetadata_op_frame:
  "ReadMetadata_op c d l s = Inr (l1, s1) \<Longrightarrow>
     cow s1 = cow s \<and> bufsink s1 = bufsink s \<and> merge_progress s1 = merge_progress s \<and>
     commits s1 = commits s"
  by (auto simp: ReadMetadata_op_def Let_def split: sum.splits if_splits)

lemma ReadMetadata_loop_frame:
  "ReadMetadata_loop riter l s = Inr (ok, l', s') \<Longrightarrow>
     cow s' = cow s \<and> bufsink s' = bufsink s \<and> merge_progress s' = merge_progress s \<and>
     commits s' = commits s"
proof (induction riter arbitrary: l s)
  case Nil
  then show ?case by simp
next
  case (Cons c riter)
  show ?case
  proof (cases "type c = kCowFooterOp \<or> type c = kCowLabelOp")
    case True
    with Cons.prems have "ReadMetadata_loop riter l s = Inr (ok, l', s')" by simp
    from Cons.IH[OF this] show ?thesis .
  next
    case nl: False
    show ?thesis
    proof (cases "type c = kCowReplaceOp \<or> type c = kCowZeroOp \<or> type c = kCowCopyOp")
      case False
      with nl Cons.prems show ?thesis by simp
    next
      case True
      with nl Cons.prems obtain l1 s1 where
        step: "ReadMetadata_op c (riter = []) l s = Inr (l1, s1)"
        and run: "ReadMetadata_loop riter l1 s1 = Inr (ok, l', s')"
        by (auto split: sum.splits)
      from Cons.IH[OF run] ReadMetadata_op_frame[OF step] show ?thesis by simp
    qed
  qed
qed

lemma ReadMetadata_frame:
  assumes "ReadMetadata s0 = Inr (True, st)"
  shows "cow st = cow s0 \<and> bufsink st = bufsink s0 \<and> merge_progress st = merge_progress s0 \<and>
         commits st = commits s0 \<and> cowop_iter st = cow_ops (cow s0)"
proof -
  from ReadMetadata_TrueD[OF assms] obtain l s1 where
    loop: "ReadMetadata_loop (rev (cow_ops (cow s0))) rm_init s0 = Inr (True, l, s1)"
    and st: "st = (if num_ops l \<noteq> 0 \<or> \<not> metadata_found l
                 then s1\<lparr>vec := vec s1 @ [de_ptr l]\<rparr> else s1)
                \<lparr>cowop_iter := cow_ops (cow s0), num_sectors := ChunkToSector (next_free l),
                 metadata_read_done := True\<rparr>" by blast
  from ReadMetadata_loop_frame[OF loop] show ?thesis by (simp add: st)
qed

text \<open>
  Every chunk id the metadata build assigns is positive, so every exception it stores has
  a \<open>new_chunk\<close> that is not 0.
\<close>

lemma rm_loop_keys_pos:
  "rm_inv False l s \<Longrightarrow> 0 < next_free l \<Longrightarrow> \<forall>k\<in>fst ` set (chunk_map s). 0 < k \<Longrightarrow>
   ReadMetadata_loop riter l s = Inr (True, l', s') \<Longrightarrow> \<forall>k\<in>fst ` set (chunk_map s'). 0 < k"
proof (induction riter arbitrary: l s)
  case Nil
  then show ?case by simp
next
  case (Cons cow_op riter)
  show ?case
  proof (cases "type cow_op = kCowFooterOp \<or> type cow_op = kCowLabelOp")
    case True
    with Cons.prems(4) have run: "ReadMetadata_loop riter l s = Inr (True, l', s')" by simp
    from Cons.IH[OF Cons.prems(1-3) run] show ?thesis .
  next
    case False
    with Cons.prems(4) have m: "mergeable cow_op"
      by (auto simp: mergeable_def split: if_splits)
    from False m Cons.prems(4) obtain l1 s1 where
      step: "ReadMetadata_op cow_op (riter = []) l s = Inr (l1, s1)"
      and run: "ReadMetadata_loop riter l1 s1 = Inr (True, l', s')"
      by (auto simp: mergeable_def split: sum.splits)
    note i1 = rm_inv_step[OF Cons.prems(1) step]
    from rm_nf_ge[of l cow_op] Cons.prems(2) have nf: "0 < rm_nf cow_op l" by simp
    with i1(2) Cons.prems(3) have k1: "\<forall>k\<in>fst ` set (chunk_map s1). 0 < k" by auto
    have n1: "0 < next_free l1"
      using rm_step_locals[OF Cons.prems(1) step] GetNext_gt[of "rm_nf cow_op l"] by simp
    show ?thesis
    proof (cases "riter = []")
      case True
      with run have "s' = s1" by simp
      with k1 show ?thesis by simp
    next
      case False
      with i1(1) have "rm_inv False l1 s1" by simp
      from Cons.IH[OF this n1 k1 run] show ?thesis .
    qed
  qed
qed

lemma ReadMetadata_keys_pos:
  assumes "vec s0 = []" and "chunk_map s0 = []" and "ReadMetadata s0 = Inr (True, st)"
  shows "\<forall>k\<in>fst ` set (chunk_map st). 0 < k"
proof -
  from ReadMetadata_TrueD[OF assms(3)] obtain l s1 where
    loop: "ReadMetadata_loop (rev (cow_ops (cow s0))) rm_init s0 = Inr (True, l, s1)"
    and st: "st = (if num_ops l \<noteq> 0 \<or> \<not> metadata_found l
                 then s1\<lparr>vec := vec s1 @ [de_ptr l]\<rparr> else s1)
                \<lparr>cowop_iter := cow_ops (cow s0), num_sectors := ChunkToSector (next_free l),
                 metadata_read_done := True\<rparr>" by blast
  have "\<forall>k\<in>fst ` set (chunk_map s1). 0 < k"
    by (rule rm_loop_keys_pos[OF rm_inv_init[OF assms(1,2)] _ _ loop])
       (simp_all add: rm_init_eq assms(2))
  then show ?thesis by (simp add: st)
qed

text \<open>Phase A on a page that starts with a zero entry: nothing is unmerged.\<close>

lemma merge_start_zero:
  "16 \<le> n \<Longrightarrow> GetMergeStartOffset (replicate n 0) a = Inr (0, 0)"
  unfolding GetMergeStartOffset_def
  by (subst GetMergeStartOffset_loop.simps)
     (simp add: de_at_zero CHECK_def zero_de_def exceptions_per_area_256)

text \<open>
  Phase B on an all-zero page and the memory at the pointer of a full area, the 16 bytes
  after its allocation included (257 entries, all live from index \<open>k\<close> on): the loop zeroes
  them all and stops with \<open>unmerged + merged = 257\<close>.
\<close>

lemma merged_ops_overrun:
  assumes "length a = 257" and "\<forall>i. k \<le> i \<and> i < 257 \<longrightarrow> new_chunk (a ! i) \<noteq> 0"
    and "u + m = k" and "k \<le> 257" and "4112 \<le> n"
  shows "GetNumberOfMergedOps_loop (replicate n 0) a (16 * k) u m =
           Inr (int (m + (257 - k)), take k a @ replicate (257 - k) zero_de)"
  using assms
proof (induction "257 - k" arbitrary: k a m)
  case 0
  then have k: "k = 257" by simp
  with 0 show ?case
    by (subst GetNumberOfMergedOps_loop.simps) (simp add: exceptions_per_area_256)
next
  case (Suc d)
  then have k: "k < 257" by simp
  have rd: "de_at (replicate n 0) (16 * k) = Inr zero_de"
    using k Suc.prems(5) by (intro de_at_zero) simp
  have live: "new_chunk (a ! k) \<noteq> 0" using Suc.prems(2) k by simp
  let ?a = "a[k := zero_de]"
  have step: "GetNumberOfMergedOps_loop (replicate n 0) a (16 * k) u m =
              GetNumberOfMergedOps_loop (replicate n 0) ?a (16 * Suc k) u (Suc m)"
    using k Suc.prems(1,3) live rd
    by (subst GetNumberOfMergedOps_loop.simps)
       (simp add: exceptions_per_area_256 CHECK_def zero_de_def area_read_def area_write_def
          sizeof_disk_exception_def add.commute)
  have "GetNumberOfMergedOps_loop (replicate n 0) ?a (16 * Suc k) u (Suc m) =
          Inr (int (Suc m + (257 - Suc k)), take (Suc k) ?a @ replicate (257 - Suc k) zero_de)"
  proof (rule Suc.hyps(1))
    show "d = 257 - Suc k" using Suc.hyps(2) by simp
    show "length ?a = 257" using Suc.prems(1) by simp
    show "\<forall>i. Suc k \<le> i \<and> i < 257 \<longrightarrow> new_chunk (?a ! i) \<noteq> 0"
      using Suc.prems(1,2) by auto
    show "u + Suc m = Suc k" using Suc.prems(3) by simp
    show "Suc k \<le> 257" using k by simp
    show "4112 \<le> n" by (rule Suc.prems(5))
  qed
  moreover have "take (Suc k) ?a @ replicate (257 - Suc k) zero_de =
                 take k a @ replicate (257 - k) zero_de"
  proof -
    have "take (Suc k) ?a = take k a @ [zero_de]"
      using k Suc.prems(1) by (simp add: take_Suc_update)
    moreover have "replicate (257 - k) zero_de = zero_de # replicate (257 - Suc k) zero_de"
      using k by (simp add: Suc_diff_Suc flip: replicate_Suc)
    ultimately show ?thesis by simp
  qed
  moreover have "Suc m + (257 - Suc k) = m + (257 - k)" using k by simp
  ultimately show ?case using step by simp
qed

lemma AdvanceMergedOps_loop_all:
  "\<forall>c\<in>set it. mergeable c \<Longrightarrow> AdvanceMergedOps_loop it (int (length it)) = (True, [], 0)"
proof (induction it)
  case Nil
  then show ?case by simp
next
  case (Cons c it)
  then have "mergeable c" by simp
  then have "type c \<noteq> kCowFooterOp" "type c \<noteq> kCowLabelOp"
    "type c = kCowReplaceOp \<or> type c = kCowZeroOp \<or> type c = kCowCopyOp"
    by (auto simp: mergeable_def)
  with Cons show ?case by simp
qed

lemma full_log_facts: "length full_log = 257" "\<forall>c\<in>set full_log. mergeable c"
  by (auto simp: full_log_def mergeable_def zero_op_def)

text \<open>
  \<^verbatim>\<open>ProcessMergeComplete\<close> for an area with 256 live entries and an all-zero page: Phase B
  leaves the area.
\<close>

lemma ProcessMergeComplete_full_area:
  assumes hd: "cow_header (cow s) = Some h" and q: "c div 257 < length (vec s)"
    and len: "length (vec s ! (c div 257)) = 256"
    and live: "\<forall>i<256. new_chunk (vec s ! (c div 257) ! i) \<noteq> 0"
  shows "ProcessMergeComplete s c (replicate 65536 0) = Inl OutOfBounds"
proof -
  from live have live': "\<forall>i. 0 \<le> i \<and> i < 256 \<longrightarrow> new_chunk (vec s ! (c div 257) ! i) \<noteq> 0"
    by simp
  have cnt: "GetNumberOfMergedOps (replicate 65536 0) (vec s ! (c div 257)) 0 0 = Inl OutOfBounds"
    using merged_ops_full[OF len live', of 0 0 65536] by (simp add: GetNumberOfMergedOps_def)
  show ?thesis using hd q
    by (simp add: ProcessMergeComplete_def Let_def CHECK_def exceptions_per_area_256
        merge_start_zero cnt)
qed

text \<open>
  The same with a live entry in the 16 bytes after the area, and 257 operations for the
  forward iterator to pass.
\<close>

lemma ProcessMergeComplete_overrun:
  assumes hd: "cow_header (cow s) = Some h" and q: "c div 257 < length (vec s)"
    and len: "length (vec s ! (c div 257)) = 257"
    and live: "\<forall>i<257. new_chunk (vec s ! (c div 257) ! i) \<noteq> 0"
    and it: "length (cowop_iter s) = 257" "\<forall>x\<in>set (cowop_iter s). mergeable x"
    and ok: "cow_commit_ok (cow s) (length (commits s))"
  shows "ProcessMergeComplete s c (replicate 65536 0) =
           Inr (True, s\<lparr>vec := (vec s)[c div 257 := replicate 257 zero_de], cowop_iter := [],
                         merge_progress := merge_progress s @ [257],
                         commits := commits s @ [257]\<rparr>)"
proof -
  from live have live': "\<forall>i. 0 \<le> i \<and> i < 257 \<longrightarrow> new_chunk (vec s ! (c div 257) ! i) \<noteq> 0"
    by simp
  have cnt: "GetNumberOfMergedOps (replicate 65536 0) (vec s ! (c div 257)) 0 0 =
               Inr (257, replicate 257 zero_de)"
    using merged_ops_overrun[OF len live', of 0 0 65536] by (simp add: GetNumberOfMergedOps_def)
  have adv: "AdvanceMergedOps_loop (cowop_iter s) 257 = (True, [], 0)"
    using AdvanceMergedOps_loop_all[OF it(2)] by (simp add: it(1))
  show ?thesis using hd q ok
    by (simp add: ProcessMergeComplete_def Let_def CHECK_def exceptions_per_area_256
        merge_start_zero cnt AdvanceMergedOps_def adv)
qed

text \<open>The daemon after \<^verbatim>\<open>InitCowDevice\<close> on \<open>full_log\<close>: area 0 is full.\<close>

lemma full_log_built:
  obtains st where "InitCowDevice (example_init full_log []) = Inr (True, st)"
    and "length (vec st) = 2" and "length (vec st ! 0) = 256"
    and "\<forall>i<256. new_chunk (vec st ! 0 ! i) \<noteq> 0"
    and "cow st = example_cow full_log" and "cowop_iter st = full_log"
    and "merge_progress st = []" and "commits st = []"
proof -
  let ?i = "(example_init full_log [])\<lparr>bufsink := Initialize (sizeof_dm_user_header + PAYLOAD_SIZE)\<rparr>"
  have f1: "vec ?i = []" and f2: "chunk_map ?i = []" by (simp_all add: example_defs)
  have ops: "cow_ops (cow ?i) = full_log" by (simp add: example_defs)
  have n: "length (filter mergeable full_log) = 257"
    using full_log_facts by simp
  have hd: "(case full_log of [] \<Rightarrow> False | c # _ \<Rightarrow> mergeable c)"
    by (simp add: full_log_def mergeable_def zero_op_def)
  have "\<exists>st. ReadMetadata ?i = Inr (True, st)"
    using full_log_facts(2)
    by (intro ReadMetadata_succeeds[where h="\<lparr>block_size = 4096, num_merge_ops = 0\<rparr>"])
       (simp_all add: example_defs BLOCK_SIZE_def)
  then obtain st where run: "ReadMetadata ?i = Inr (True, st)" ..
  then have init: "InitCowDevice (example_init full_log []) = Inr (True, st)"
    by (simp add: InitCowDevice_def Let_def example_defs)
  note lay = ReadMetadata_layout[OF f1 f2 run, unfolded ops n]
  from lay have cl: "length (chunk_map st) = 257" and vl: "length (vec st) = 2"
    by (simp_all add: Let_def)
  from lay vl have a0: "vec st ! 0 = pad_area (take 256 (map de_of (chunk_map st)))"
    by simp
  have l0: "length (vec st ! 0) = 256"
    unfolding a0 using cl by (simp add: pad_area_def exceptions_per_area_256)
  have pos: "\<forall>k\<in>fst ` set (chunk_map st). 0 < k" by (rule ReadMetadata_keys_pos[OF f1 f2 run])
  have live: "\<forall>i<256. new_chunk (vec st ! 0 ! i) \<noteq> 0"
  proof (intro allI impI)
    fix i :: nat assume i: "i < 256"
    with cl have "vec st ! 0 ! i = de_of (chunk_map st ! i)"
      unfolding a0 by (simp add: pad_area_def nth_append)
    moreover have "chunk_map st ! i \<in> set (chunk_map st)" using i cl by simp
    ultimately show "new_chunk (vec st ! 0 ! i) \<noteq> 0" using pos by (auto simp: de_of_def)
  qed
  from ReadMetadata_frame[OF run]
  have fr: "cow st = example_cow full_log" "cowop_iter st = full_log"
    "merge_progress st = []" "commits st = []"
    by (simp_all add: example_defs)
  from init vl l0 live fr show ?thesis by (rule that)
qed

text \<open>
  Claim C10 says that a successful \<^verbatim>\<open>ProcessMergeComplete\<close> changes nothing but entries
  inside the one stored area, the forward iterator and the reported count. On a full area
  it does. After \<^verbatim>\<open>InitCowDevice\<close> on \<open>full_log\<close>, area 0 holds 256 live entries. On a
  merge-complete write for chunk 1 whose page the kernel has zeroed entirely, the loop of
  \<^verbatim>\<open>GetNumberOfMergedOps\<close> zeroes the 256 entries and, its guard being \<^verbatim>\<open><=\<close>, goes on to
  the entry at index 256, past the allocation of the area: the fault \<open>OutOfBounds\<close>. With a
  value for the 16 bytes that lie there (\<open>neighbour\<close>, whose \<open>new_chunk\<close> is not 0) the run is
  that of the code on this memory: it zeroes these bytes too, which belong to no area,
  counts 257 merged operations for an area of 256, passes 257 operations with the
  iterator, reports 257 to \<^verbatim>\<open>UpdateMergeProgress\<close> and to \<^verbatim>\<open>CommitMerge\<close>, and returns true.
\<close>

theorem ProcessMergeComplete_past_full_area:
  "(case InitCowDevice (example_init full_log []) of
      Inl e \<Rightarrow> False
    | Inr (ok, st) \<Rightarrow>
        ok \<and> length (vec st ! 0) = exceptions_per_area \<and>
        ProcessMergeComplete st 1 (replicate 65536 0) = Inl OutOfBounds \<and>
        ProcessMergeComplete (st\<lparr>vec := (vec st)[0 := vec st ! 0 @ [neighbour]]\<rparr>) 1
            (replicate 65536 0) =
          Inr (True, st\<lparr>vec := (vec st)[0 := zero_area @ [zero_de]], cowop_iter := [],
                        merge_progress := [257], commits := [257]\<rparr>))"
proof -
  from full_log_built obtain st where
    init: "InitCowDevice (example_init full_log []) = Inr (True, st)"
    and vl: "length (vec st) = 2" and l0: "length (vec st ! 0) = 256"
    and live: "\<forall>i<256. new_chunk (vec st ! 0 ! i) \<noteq> 0"
    and fr: "cow st = example_cow full_log" "cowop_iter st = full_log"
      "merge_progress st = []" "commits st = []" by blast
  have hd: "cow_header (cow st) = Some \<lparr>block_size = 4096, num_merge_ops = 0\<rparr>"
    by (simp add: fr example_cow_def)
  have q: "1 div 257 < length (vec st)" using vl by simp
  have a: "ProcessMergeComplete st 1 (replicate 65536 0) = Inl OutOfBounds"
    by (rule ProcessMergeComplete_full_area[OF hd q]) (simp_all add: l0 live)
  let ?o = "st\<lparr>vec := (vec st)[0 := vec st ! 0 @ [neighbour]]\<rparr>"
  have b: "ProcessMergeComplete ?o 1 (replicate 65536 0) =
           Inr (True, ?o\<lparr>vec := (vec ?o)[1 div 257 := replicate 257 zero_de], cowop_iter := [],
                         merge_progress := merge_progress ?o @ [257],
                         commits := commits ?o @ [257]\<rparr>)"
  proof (rule ProcessMergeComplete_overrun)
    show "cow_header (cow ?o) = Some \<lparr>block_size = 4096, num_merge_ops = 0\<rparr>" using hd by simp
    show "1 div 257 < length (vec ?o)" using vl by simp
    show "length (vec ?o ! (1 div 257)) = 257" using vl l0 by simp
    show "\<forall>i<257. new_chunk (vec ?o ! (1 div 257) ! i) \<noteq> 0"
      using vl l0 live by (auto simp: nth_append neighbour_def less_Suc_eq)
    show "length (cowop_iter ?o) = 257" by (simp add: fr full_log_facts)
    show "\<forall>x\<in>set (cowop_iter ?o). mergeable x" using full_log_facts(2) by (simp add: fr)
    show "cow_commit_ok (cow ?o) (length (commits ?o))" by (simp add: fr example_cow_def)
  qed
  have z: "zero_area @ [zero_de] = replicate 257 zero_de"
  proof -
    have "replicate (256 + 1) zero_de = replicate 256 zero_de @ replicate 1 zero_de"
      by (rule replicate_add)
    then show ?thesis by (simp add: zero_area_def exceptions_per_area_256)
  qed
  show ?thesis using a b l0
    by (simp add: init exceptions_per_area_256 fr z)
qed

subsection \<open>The request loop\<close>

text \<open>
  Claim C9. A request whose type is neither \<^verbatim>\<open>DM_USER_REQ_MAP_READ\<close> nor
  \<^verbatim>\<open>DM_USER_REQ_MAP_WRITE\<close>: \<^verbatim>\<open>Run\<close> returns true, having cleared the sink and read the
  header, and writes nothing to the control device.
\<close>

theorem Run_ignores_other_types:
  assumes "sizeof_dm_user_header \<le> buffer_size (bufsink s)"
    and "ctrl_in s = RdHeader h # rest"
    and "req_type h \<noteq> DM_USER_REQ_MAP_READ" and "req_type h \<noteq> DM_USER_REQ_MAP_WRITE"
  shows "Run s = Inr (True, s\<lparr>bufsink := (Clear (bufsink s))\<lparr>header := h\<rparr>, ctrl_in := rest\<rparr>) \<and>
         ctrl_out (s\<lparr>bufsink := (Clear (bufsink s))\<lparr>header := h\<rparr>, ctrl_in := rest\<rparr>) = ctrl_out s"
  using assms by (simp add: Run_def GetHeaderPtr_def CHECK_def ReadDmUserHeader_def)

text \<open>The hypotheses of C9 at a request of type 7.\<close>

theorem Run_ignores_other_types_witness:
  "sizeof_dm_user_header \<le> buffer_size (bufsink other_request) \<and>
   ctrl_in other_request = RdHeader other_header # [] \<and>
   req_type other_header \<noteq> DM_USER_REQ_MAP_READ \<and>
   req_type other_header \<noteq> DM_USER_REQ_MAP_WRITE \<and>
   Run other_request =
     Inr (True, other_request\<lparr>bufsink := (Clear (bufsink other_request))\<lparr>header := other_header\<rparr>,
                               ctrl_in := []\<rparr>) \<and>
   ctrl_out (other_request\<lparr>bufsink := (Clear (bufsink other_request))\<lparr>header := other_header\<rparr>,
                            ctrl_in := []\<rparr>) = ctrl_out other_request"
proof -
  have a: "sizeof_dm_user_header \<le> buffer_size (bufsink other_request)"
    by (simp add: other_request_def served_defs)
  have b: "ctrl_in other_request = RdHeader other_header # []"
    by (simp add: other_request_def served_defs)
  have c: "req_type other_header \<noteq> DM_USER_REQ_MAP_READ"
    by (simp add: other_header_def DM_USER_REQ_MAP_READ_def)
  have d: "req_type other_header \<noteq> DM_USER_REQ_MAP_WRITE"
    by (simp add: other_header_def DM_USER_REQ_MAP_WRITE_def)
  note main = Run_ignores_other_types[OF a b c d]
  show ?thesis by (intro conjI a b c d main[THEN conjunct1] main[THEN conjunct2])
qed

text \<open>
  Claim C2 says that an inconsistent stored entry (old chunk set, new chunk zero) at the
  merge frontier is answered with \<^verbatim>\<open>DM_USER_RESP_ERROR\<close> and the loop goes on. In the code
  \<^verbatim>\<open>GetNumberOfMergedOps\<close> returns \<open>-1\<close> there, and \<^verbatim>\<open>ProcessMergeComplete\<close> passes that
  straight to \<^verbatim>\<open>CHECK(merged_ops_cur_iter > 0)\<close>: \<^verbatim>\<open>Run\<close> aborts and no response is written.
\<close>

theorem Run_aborts_on_inconsistent_entry:
  "GetNumberOfMergedOps (replicate 65536 0) (zero_area[0 := \<lparr>old_chunk = 5, new_chunk = 0\<rparr>]) 0 0 =
     Inr (- 1, zero_area[0 := \<lparr>old_chunk = 5, new_chunk = 0\<rparr>]) \<and>
   Run inconsistent_state = Inl (CheckFailed ''merged_ops_cur_iter > 0'')"
proof -
  let ?a = "zero_area[0 := \<lparr>old_chunk = 5, new_chunk = 0\<rparr>]"
  have rd: "de_at (replicate 65536 0) 0 = Inr zero_de" by (rule de_at_zero) simp
  have cnt: "GetNumberOfMergedOps (replicate 65536 0) ?a 0 0 = Inr (- 1, ?a)"
    unfolding GetNumberOfMergedOps_def
    by (subst GetNumberOfMergedOps_loop.simps)
       (simp add: rd CHECK_def zero_de_def area_read_def zero_area_def const_defs)
  have start: "GetMergeStartOffset (replicate 65536 0) ?a = Inr (0, 0)"
    unfolding GetMergeStartOffset_def
    by (subst GetMergeStartOffset_loop.simps)
       (simp add: rd CHECK_def zero_de_def const_defs)
  have pmc: "ProcessMergeComplete s c (replicate 65536 0) = Inl (CheckFailed ''merged_ops_cur_iter > 0'')"
    if "vec s = [?a]" "cow_header (cow s) = Some hd" "c < 257" for s hd c
    using that by (simp add: ProcessMergeComplete_def Let_def CHECK_def start cnt const_defs)
  have "Run inconsistent_state = Inl (CheckFailed ''merged_ops_cur_iter > 0'')"
    apply (simp add: Run_def inconsistent_state_def example_defs GetHeaderPtr_def CHECK_def
        Initialize_def Clear_def ReadDmUserHeader_def const_defs
        DM_USER_REQ_MAP_WRITE_def DM_USER_REQ_MAP_READ_def)
    apply (simp add: Run_write_def Let_def CHECK_def SectorToChunk_def GetPayloadBuffer_def
        ReadDmUserPayload_def set_type_def store_def payload_store_def const_defs
        DM_USER_RESP_SUCCESS_def DM_USER_RESP_ERROR_def replicate_add[symmetric])
    apply (subst pmc)
      apply simp_all
    done
  with cnt show ?thesis by simp
qed

end
